theory Spec2Isabelle
  imports Complex_Main "HOL-Library.Multiset" "HOL-Library.Sublist"
begin

section \<open>Times\<close>

text \<open>
  Event times are Python floats. The model keeps the finite values as reals together with
  the one special value that the code tests for, \<^verbatim>\<open>math.inf\<close>. Rounding, NaN and
  negative infinity are outside the model: no path of \<^verbatim>\<open>event_management.py\<close> produces or
  tests them. The simulation clock \<^verbatim>\<open>engine.world.current_time\<close> and the start time of a
  duration event are finite, hence reals.
\<close>

datatype time = Fin real | MathInf

instantiation time :: linorder
begin

fun less_eq_time :: "time \<Rightarrow> time \<Rightarrow> bool" where
  "less_eq_time (Fin a) (Fin b) = (a \<le> b)"
| "less_eq_time _ MathInf = True"
| "less_eq_time MathInf (Fin _) = False"

definition less_time :: "time \<Rightarrow> time \<Rightarrow> bool" where
  "less_time a b = (a \<le> b \<and> \<not> b \<le> a)"

instance
proof
  fix x y z :: time
  show "(x < y) = (x \<le> y \<and> \<not> y \<le> x)" by (simp add: less_time_def)
  show "x \<le> x" by (cases x) simp_all
  show "x \<le> y \<Longrightarrow> y \<le> z \<Longrightarrow> x \<le> z" by (cases x; cases y; cases z) simp_all
  show "x \<le> y \<Longrightarrow> y \<le> x \<Longrightarrow> x = y" by (cases x; cases y) simp_all
  show "x \<le> y \<or> y \<le> x" by (cases x; cases y) auto
qed

end

lemma less_time_simps [simp]:
  "(Fin a < Fin b) = (a < b)"
  "(Fin a < MathInf) = True"
  "(MathInf < t) = False"
  by (cases t; auto simp: less_time_def)+

text \<open>\<^verbatim>\<open>self.time - self._time_started\<close>, the start time being finite.\<close>

fun time_minus :: "time \<Rightarrow> real \<Rightarrow> time" where
  "time_minus (Fin a) s = Fin (a - s)"
| "time_minus MathInf s = MathInf"

section \<open>Collaborator data\<close>

text \<open>
  Vessels, locations and trades belong to other modules. A vessel is referred to by a stable
  identifier, a location by its name; a trade is the record of the attributes the events read.
  Their \<^verbatim>\<open>==\<close> is HOL equality.
\<close>

type_synonym vessel = nat
type_synonym location = string
type_synonym info = "string option"

record trade =
  origin_port :: location
  destination_port :: location
  time_window :: "time option \<times> time option \<times> time option \<times> time option"
  cargo_type :: string
  amount :: real

text \<open>\<^verbatim>\<open>trade.time_window[i]\<close> for the four indices the code uses.\<close>

fun tw0 :: "trade \<Rightarrow> time option" where "tw0 tr = (case time_window tr of (a, b, c, d) \<Rightarrow> a)"
fun tw1 :: "trade \<Rightarrow> time option" where "tw1 tr = (case time_window tr of (a, b, c, d) \<Rightarrow> b)"
fun tw2 :: "trade \<Rightarrow> time option" where "tw2 tr = (case time_window tr of (a, b, c, d) \<Rightarrow> c)"
fun tw3 :: "trade \<Rightarrow> time option" where "tw3 tr = (case time_window tr of (a, b, c, d) \<Rightarrow> d)"

text \<open>A vessel's location is a place or the composite \<^verbatim>\<open>OnJourney(origin, destination, start_time)\<close>.\<close>

datatype position = At location | OnJourney location location real

section \<open>The event taxonomy\<close>

text \<open>
  One constructor per concrete class; the arguments are the instance attributes in the order
  \<^verbatim>\<open>_time\<close>, \<^verbatim>\<open>info\<close>, then the attributes each subclass adds (\<^verbatim>\<open>_time_started\<close> first for
  every \<^verbatim>\<open>DurationEvent\<close>). \<^verbatim>\<open>VesselEvent\<close> and \<^verbatim>\<open>VesselCargoEvent\<close> declare abstract
  methods and have no instances of their own.
\<close>

datatype event =
    Event time info
  | FirstCargoAnnouncementEvent time info time
  | CargoAnnouncementEvent time info time
  | CargoEvent time info
  | DurationEvent time info real
  | VesselLocationInformationEvent time info real vessel location
  | TravelEvent time info real vessel location location bool
  | IdleEvent time info real vessel location
  | ArrivalEvent time info real vessel trade bool
  | CargoTransferEvent time info real vessel trade bool

fun ev_time :: "event \<Rightarrow> time" where
  "ev_time (Event t i) = t"
| "ev_time (FirstCargoAnnouncementEvent t i c) = t"
| "ev_time (CargoAnnouncementEvent t i c) = t"
| "ev_time (CargoEvent t i) = t"
| "ev_time (DurationEvent t i s) = t"
| "ev_time (VesselLocationInformationEvent t i s v l) = t"
| "ev_time (TravelEvent t i s v a b ld) = t"
| "ev_time (IdleEvent t i s v l) = t"
| "ev_time (ArrivalEvent t i s v tr p) = t"
| "ev_time (CargoTransferEvent t i s v tr p) = t"

fun ev_info :: "event \<Rightarrow> info" where
  "ev_info (Event t i) = i"
| "ev_info (FirstCargoAnnouncementEvent t i c) = i"
| "ev_info (CargoAnnouncementEvent t i c) = i"
| "ev_info (CargoEvent t i) = i"
| "ev_info (DurationEvent t i s) = i"
| "ev_info (VesselLocationInformationEvent t i s v l) = i"
| "ev_info (TravelEvent t i s v a b ld) = i"
| "ev_info (IdleEvent t i s v l) = i"
| "ev_info (ArrivalEvent t i s v tr p) = i"
| "ev_info (CargoTransferEvent t i s v tr p) = i"

text \<open>\<^verbatim>\<open>self.info = ...\<close>\<close>

fun set_info :: "info \<Rightarrow> event \<Rightarrow> event" where
  "set_info j (Event t i) = Event t j"
| "set_info j (FirstCargoAnnouncementEvent t i c) = FirstCargoAnnouncementEvent t j c"
| "set_info j (CargoAnnouncementEvent t i c) = CargoAnnouncementEvent t j c"
| "set_info j (CargoEvent t i) = CargoEvent t j"
| "set_info j (DurationEvent t i s) = DurationEvent t j s"
| "set_info j (VesselLocationInformationEvent t i s v l) = VesselLocationInformationEvent t j s v l"
| "set_info j (TravelEvent t i s v a b ld) = TravelEvent t j s v a b ld"
| "set_info j (IdleEvent t i s v l) = IdleEvent t j s v l"
| "set_info j (ArrivalEvent t i s v tr p) = ArrivalEvent t j s v tr p"
| "set_info j (CargoTransferEvent t i s v tr p) = CargoTransferEvent t j s v tr p"

text \<open>\<^verbatim>\<open>_time_started\<close>: only a \<^verbatim>\<open>DurationEvent\<close> has the attribute.\<close>

fun ev_time_started :: "event \<Rightarrow> real option" where
  "ev_time_started (DurationEvent t i s) = Some s"
| "ev_time_started (VesselLocationInformationEvent t i s v l) = Some s"
| "ev_time_started (TravelEvent t i s v a b ld) = Some s"
| "ev_time_started (IdleEvent t i s v l) = Some s"
| "ev_time_started (ArrivalEvent t i s v tr p) = Some s"
| "ev_time_started (CargoTransferEvent t i s v tr p) = Some s"
| "ev_time_started _ = None"

fun set_time_started :: "real \<Rightarrow> event \<Rightarrow> event" where
  "set_time_started s' (DurationEvent t i s) = DurationEvent t i s'"
| "set_time_started s' (VesselLocationInformationEvent t i s v l) =
     VesselLocationInformationEvent t i s' v l"
| "set_time_started s' (TravelEvent t i s v a b ld) = TravelEvent t i s' v a b ld"
| "set_time_started s' (IdleEvent t i s v l) = IdleEvent t i s' v l"
| "set_time_started s' (ArrivalEvent t i s v tr p) = ArrivalEvent t i s' v tr p"
| "set_time_started s' (CargoTransferEvent t i s v tr p) = CargoTransferEvent t i s' v tr p"
| "set_time_started s' e = e"

text \<open>
  \<^verbatim>\<open>isinstance(e, VesselEvent)\<close> together with \<^verbatim>\<open>e.vessel\<close>: \<open>None\<close> when the event is
  not a vessel event.
\<close>

fun ev_vessel :: "event \<Rightarrow> vessel option" where
  "ev_vessel (VesselLocationInformationEvent t i s v l) = Some v"
| "ev_vessel (TravelEvent t i s v a b ld) = Some v"
| "ev_vessel (IdleEvent t i s v l) = Some v"
| "ev_vessel (ArrivalEvent t i s v tr p) = Some v"
| "ev_vessel (CargoTransferEvent t i s v tr p) = Some v"
| "ev_vessel _ = None"

text \<open>\<^verbatim>\<open>isinstance(e, VesselCargoEvent)\<close> with \<^verbatim>\<open>e.trade\<close> and \<^verbatim>\<open>e.is_pickup\<close>.\<close>

fun ev_trade :: "event \<Rightarrow> trade option" where
  "ev_trade (ArrivalEvent t i s v tr p) = Some tr"
| "ev_trade (CargoTransferEvent t i s v tr p) = Some tr"
| "ev_trade _ = None"

fun ev_is_pickup :: "event \<Rightarrow> bool option" where
  "ev_is_pickup (ArrivalEvent t i s v tr p) = Some p"
| "ev_is_pickup (CargoTransferEvent t i s v tr p) = Some p"
| "ev_is_pickup _ = None"

text \<open>
  The property \<^verbatim>\<open>location\<close> of the vessel events: the stored location, the journey of a
  \<^verbatim>\<open>TravelEvent\<close>, or the trade's origin port (pickup) or destination port (drop-off).
\<close>

fun ev_location :: "event \<Rightarrow> position option" where
  "ev_location (VesselLocationInformationEvent t i s v l) = Some (At l)"
| "ev_location (TravelEvent t i s v a b ld) = Some (OnJourney a b s)"
| "ev_location (IdleEvent t i s v l) = Some (At l)"
| "ev_location (ArrivalEvent t i s v tr p) =
     Some (At (if p then origin_port tr else destination_port tr))"
| "ev_location (CargoTransferEvent t i s v tr p) =
     Some (At (if p then origin_port tr else destination_port tr))"
| "ev_location _ = None"

subsection \<open>Equality of events\<close>

text \<open>
  Each \<^verbatim>\<open>__eq__\<close> of the source, with \<^verbatim>\<open>isinstance\<close> written as a test on the constructor.
  Python's \<^verbatim>\<open>and\<close> reads an attribute of \<^verbatim>\<open>other\<close> only after the \<^verbatim>\<open>isinstance\<close> test
  succeeded; comparing the optional attributes does the same.
\<close>

definition Event_eq :: "event \<Rightarrow> event \<Rightarrow> bool" where
  "Event_eq self other = (ev_time self = ev_time other \<and> ev_info self = ev_info other)"

definition VesselEvent_eq :: "event \<Rightarrow> event \<Rightarrow> bool" where
  "VesselEvent_eq self other =
     (ev_vessel other \<noteq> None \<and> Event_eq self other \<and> ev_vessel self = ev_vessel other)"

fun is_IdleEvent :: "event \<Rightarrow> bool" where
  "is_IdleEvent (IdleEvent t i s v l) = True"
| "is_IdleEvent _ = False"

fun is_ArrivalEvent :: "event \<Rightarrow> bool" where
  "is_ArrivalEvent (ArrivalEvent t i s v tr p) = True"
| "is_ArrivalEvent _ = False"

fun is_CargoTransferEvent :: "event \<Rightarrow> bool" where
  "is_CargoTransferEvent (CargoTransferEvent t i s v tr p) = True"
| "is_CargoTransferEvent _ = False"

definition IdleEvent_eq :: "event \<Rightarrow> event \<Rightarrow> bool" where
  "IdleEvent_eq self other =
     (is_IdleEvent other \<and> VesselEvent_eq self other \<and> ev_location self = ev_location other)"

definition VesselCargoEvent_eq :: "event \<Rightarrow> event \<Rightarrow> bool" where
  "VesselCargoEvent_eq self other =
     (ev_trade other \<noteq> None \<and> ev_time self = ev_time other
      \<and> ev_is_pickup self = ev_is_pickup other \<and> ev_trade self = ev_trade other)"

definition ArrivalEvent_eq :: "event \<Rightarrow> event \<Rightarrow> bool" where
  "ArrivalEvent_eq self other = (VesselCargoEvent_eq self other \<and> is_ArrivalEvent other)"

definition CargoTransferEvent_eq :: "event \<Rightarrow> event \<Rightarrow> bool" where
  "CargoTransferEvent_eq self other =
     (VesselCargoEvent_eq self other \<and> is_CargoTransferEvent other)"

text \<open>The \<^verbatim>\<open>__eq__\<close> that the class of \<open>self\<close> resolves to.\<close>

fun eq_method :: "event \<Rightarrow> event \<Rightarrow> bool" where
  "eq_method (VesselLocationInformationEvent t i s v l) other =
     VesselEvent_eq (VesselLocationInformationEvent t i s v l) other"
| "eq_method (TravelEvent t i s v a b ld) other = VesselEvent_eq (TravelEvent t i s v a b ld) other"
| "eq_method (IdleEvent t i s v l) other = IdleEvent_eq (IdleEvent t i s v l) other"
| "eq_method (ArrivalEvent t i s v tr p) other = ArrivalEvent_eq (ArrivalEvent t i s v tr p) other"
| "eq_method (CargoTransferEvent t i s v tr p) other =
     CargoTransferEvent_eq (CargoTransferEvent t i s v tr p) other"
| "eq_method self other = Event_eq self other"

text \<open>
  Whether the class of the first event is a proper subclass of the class of the second:
  every other class derives from \<^verbatim>\<open>Event\<close>, the vessel events derive from
  \<^verbatim>\<open>DurationEvent\<close>.
\<close>

fun is_Event :: "event \<Rightarrow> bool" where
  "is_Event (Event t i) = True"
| "is_Event _ = False"

fun is_DurationEvent :: "event \<Rightarrow> bool" where
  "is_DurationEvent (DurationEvent t i s) = True"
| "is_DurationEvent _ = False"

definition proper_subclass :: "event \<Rightarrow> event \<Rightarrow> bool" where
  "proper_subclass a b =
     (is_Event b \<and> \<not> is_Event a \<or> is_DurationEvent b \<and> ev_vessel a \<noteq> None)"

text \<open>
  \<^verbatim>\<open>a == b\<close>: Python asks the right operand first when its class is a proper subclass of
  the left operand's class, and the left operand otherwise; every \<^verbatim>\<open>__eq__\<close> here answers
  with a boolean, so the first answer is the result.
\<close>

definition event_eq :: "event \<Rightarrow> event \<Rightarrow> bool" where
  "event_eq a b = (if proper_subclass b a then eq_method b a else eq_method a b)"

section \<open>The schedule\<close>

subsection \<open>EventItem\<close>

text \<open>
  The dataclass \<^verbatim>\<open>EventItem\<close> is declared with \<^verbatim>\<open>order=True\<close> and its field \<^verbatim>\<open>event\<close>
  with \<^verbatim>\<open>compare=False\<close>: the generated \<^verbatim>\<open>__lt__\<close> and the generated \<^verbatim>\<open>__eq__\<close> both
  compare the tuple \<^verbatim>\<open>(time,)\<close> only.
\<close>

record EventItem =
  time :: time
  event :: event

definition EventItem_lt :: "EventItem \<Rightarrow> EventItem \<Rightarrow> bool" where
  "EventItem_lt a b = (time a < time b)"

definition EventItem_eq :: "EventItem \<Rightarrow> EventItem \<Rightarrow> bool" where
  "EventItem_eq a b = (time a = time b)"

subsection \<open>The heap of the standard library\<close>

text \<open>
  \<^verbatim>\<open>EventQueue\<close> derives from \<^verbatim>\<open>queue.PriorityQueue\<close>, whose list \<^verbatim>\<open>self.queue\<close> is kept by
  \<^verbatim>\<open>heapq.heappush\<close> and \<^verbatim>\<open>heapq.heappop\<close>. These are the functions of CPython's
  \<^verbatim>\<open>heapq\<close> module, loops written as recursion on the position.
\<close>

function siftdown_loop :: "EventItem list \<Rightarrow> EventItem \<Rightarrow> nat \<Rightarrow> nat \<Rightarrow> EventItem list" where
  "siftdown_loop heap newitem startpos pos =
     (if pos > startpos then
        (let parentpos = (pos - 1) div 2;
             parent = heap ! parentpos
         in if EventItem_lt newitem parent
            then siftdown_loop (heap[pos := parent]) newitem startpos parentpos
            else heap[pos := newitem])
      else heap[pos := newitem])"
  by pat_completeness auto
termination
  by (relation "measure (\<lambda>(heap, newitem, startpos, pos). pos)") auto

declare siftdown_loop.simps [simp del]

text \<open>\<^verbatim>\<open>_siftdown(heap, startpos, pos)\<close>, called with \<open>pos < len(heap)\<close>.\<close>

definition siftdown :: "EventItem list \<Rightarrow> nat \<Rightarrow> nat \<Rightarrow> EventItem list" where
  "siftdown heap startpos pos = siftdown_loop heap (heap ! pos) startpos pos"

text \<open>The loop of \<^verbatim>\<open>_siftup\<close>: the smaller child moves up until the position is a leaf.\<close>

function siftup_loop :: "EventItem list \<Rightarrow> nat \<Rightarrow> EventItem list \<times> nat" where
  "siftup_loop heap pos =
     (let endpos = length heap;
          childpos = 2 * pos + 1
      in if childpos < endpos then
           (let rightpos = childpos + 1;
                childpos' = (if rightpos < endpos
                                \<and> \<not> EventItem_lt (heap ! childpos) (heap ! rightpos)
                             then rightpos else childpos)
            in siftup_loop (heap[pos := heap ! childpos']) childpos')
         else (heap, pos))"
  by pat_completeness auto
termination
  by (relation "measure (\<lambda>(heap, pos). length heap - pos)") (auto split: if_splits)

declare siftup_loop.simps [simp del]

text \<open>\<^verbatim>\<open>_siftup(heap, pos)\<close>, called with \<open>pos < len(heap)\<close>.\<close>

definition siftup :: "EventItem list \<Rightarrow> nat \<Rightarrow> EventItem list" where
  "siftup heap pos =
     (let newitem = heap ! pos in
      case siftup_loop heap pos of
        (heap', pos') \<Rightarrow> siftdown (heap'[pos' := newitem]) pos pos')"

definition heappush :: "EventItem list \<Rightarrow> EventItem \<Rightarrow> EventItem list" where
  "heappush heap item = siftdown (heap @ [item]) 0 (length heap)"

text \<open>\<^verbatim>\<open>heappop\<close>: \<^verbatim>\<open>heap.pop()\<close> raises \<^verbatim>\<open>IndexError\<close> on the empty list (\<open>None\<close> here).\<close>

definition heappop :: "EventItem list \<Rightarrow> (EventItem \<times> EventItem list) option" where
  "heappop heap =
     (if heap = [] then None
      else (let lastelt = last heap;
                heap' = butlast heap
            in if heap' \<noteq> [] then Some (heap' ! 0, siftup (heap'[0 := lastelt]) 0)
               else Some (lastelt, heap')))"

text \<open>
  \<^verbatim>\<open>list.remove(x)\<close>: deletes the first element equal to \<^verbatim>\<open>x\<close>, \<^verbatim>\<open>ValueError\<close> (\<open>None\<close>
  here) when there is none.
\<close>

fun list_remove :: "EventItem list \<Rightarrow> EventItem \<Rightarrow> EventItem list option" where
  "list_remove [] x = None"
| "list_remove (y # ys) x =
     (if EventItem_eq y x then Some ys
      else (case list_remove ys x of None \<Rightarrow> None | Some ys' \<Rightarrow> Some (y # ys')))"

subsection \<open>The simulation state\<close>

text \<open>
  What the events and the queue read and write, passed explicitly. The vessels are owned by
  another module: a vessel's state is its \<^verbatim>\<open>location\<close> attribute and its cargo, whose
  representation is left open. The calls of \<^verbatim>\<open>market.inform_future_trades\<close> and the messages
  handed to the logger are recorded in the order they are made.
\<close>

type_synonym company = string

record 'c vessel_state =
  location :: position
  cargo :: 'c

datatype violation =
    LoadingBeforeEarliestStart
  | LoadingAfterLatestFinish
  | UnloadingBeforeEarliestStart
  | UnloadingAfterLatestFinish

datatype log_entry =
    Debug_added EventItem
  | Debug_removed EventItem
  | Warning_not_in_queue EventItem
  | Error_time_constraints string violation time time

record 'c world =
  current_time :: real
  queue :: "EventItem list"
  vessels :: "vessel \<Rightarrow> 'c vessel_state"
  informed :: "(trade list \<times> time \<times> company list) list"
  log :: "log_entry list"

text \<open>
  The operations of the collaborators that the events call and whose code is elsewhere:
  \<^verbatim>\<open>engine.shipping.get_trades\<close>, \<^verbatim>\<open>engine.shipping_companies\<close>,
  \<^verbatim>\<open>engine.class_factory.generate_event_cargo\<close>, \<^verbatim>\<open>vessel.event_occurrence\<close>, the name of
  \<^verbatim>\<open>engine.find_company_for_vessel(vessel)\<close> and \<^verbatim>\<open>mable.util.format_time\<close>.
\<close>

record 'c engine =
  get_trades :: "time \<Rightarrow> trade list"
  shipping_companies :: "company list"
  generate_event_cargo :: "time \<Rightarrow> event"
  event_occurrence :: "event \<Rightarrow> 'c vessel_state \<Rightarrow> 'c vessel_state"
  company_name :: "vessel \<Rightarrow> string"
  format_time :: "time \<Rightarrow> string"

text \<open>
  How a call ends: it returns, it raises, or it waits for an item that nothing will put
  (the kernel is single-threaded, so a blocking \<^verbatim>\<open>PriorityQueue.get\<close> on an empty queue
  never returns).
\<close>

datatype error = ValueError string | Empty | IndexError

datatype 'a outcome = Returned 'a | Raised error | Waits

subsection \<open>Hooks at insertion\<close>

text \<open>
  \<^verbatim>\<open>DurationEvent.added_to_queue\<close>: the start time is the event's own time when that is
  earlier than the current time, and the current time otherwise. An infinite time is not
  earlier than the clock.
\<close>

definition start_time :: "'c world \<Rightarrow> event \<Rightarrow> real" where
  "start_time w self =
     (case ev_time self of
        Fin t \<Rightarrow> if t < current_time w then t else current_time w
      | MathInf \<Rightarrow> current_time w)"

definition DurationEvent_added_to_queue :: "'c world \<Rightarrow> event \<Rightarrow> event" where
  "DurationEvent_added_to_queue w self = set_time_started (start_time w self) self"

text \<open>
  \<^verbatim>\<open>event.added_to_queue(engine)\<close>, by the class of the event: \<^verbatim>\<open>TravelEvent\<close> also sets
  the vessel's location to the journey; an event that is not a \<^verbatim>\<open>DurationEvent\<close> does nothing.
\<close>

fun added_to_queue :: "'c world \<Rightarrow> event \<Rightarrow> event \<times> 'c world" where
  "added_to_queue w (TravelEvent t i s v a b ld) =
     (let s' = start_time w (TravelEvent t i s v a b ld)
      in (TravelEvent t i s' v a b ld,
          w\<lparr>vessels := (vessels w)(v := (vessels w v)\<lparr>location := OnJourney a b s'\<rparr>)\<rparr>))"
| "added_to_queue w (Event t i) = (Event t i, w)"
| "added_to_queue w (FirstCargoAnnouncementEvent t i c) = (FirstCargoAnnouncementEvent t i c, w)"
| "added_to_queue w (CargoAnnouncementEvent t i c) = (CargoAnnouncementEvent t i c, w)"
| "added_to_queue w (CargoEvent t i) = (CargoEvent t i, w)"
| "added_to_queue w self = (DurationEvent_added_to_queue w self, w)"

text \<open>\<^verbatim>\<open>DurationEvent.has_started\<close> and \<^verbatim>\<open>DurationEvent.performed_time\<close>.\<close>

definition has_started :: "event \<Rightarrow> bool option" where
  "has_started self = map_option (\<lambda>s. s \<ge> 0) (ev_time_started self)"

definition performed_time :: "event \<Rightarrow> time option" where
  "performed_time self =
     (case ev_time_started self of
        None \<Rightarrow> None
      | Some s \<Rightarrow> Some (if s \<ge> 0 then time_minus (ev_time self) s else Fin 0))"

subsection \<open>EventQueue\<close>

text \<open>\<^verbatim>\<open>EventQueue.put\<close>; the queue is unbounded, so the base class appends without waiting.\<close>

definition put :: "'c world \<Rightarrow> event \<Rightarrow> unit outcome \<times> 'c world" where
  "put w ev =
     (if ev_time ev = MathInf then (Raised (ValueError ''Event with infinite deadline.''), w)
      else (case added_to_queue w ev of
              (ev', w') \<Rightarrow>
                (let event_item = \<lparr>time = ev_time ev', event = ev'\<rparr>
                 in (Returned (),
                     w'\<lparr>queue := heappush (queue w') event_item,
                        log := log w' @ [Debug_added event_item]\<rparr>))))"

text \<open>
  \<^verbatim>\<open>PriorityQueue.get(block, timeout)\<close> of the standard library on the list of items:
  without blocking an empty queue raises \<^verbatim>\<open>Empty\<close>; blocking without a timeout waits while
  the queue is empty; a negative timeout raises \<^verbatim>\<open>ValueError\<close>; with a timeout an empty queue
  raises \<^verbatim>\<open>Empty\<close> once the timeout has passed.
\<close>

definition take_item :: "EventItem list \<Rightarrow> EventItem outcome \<times> EventItem list" where
  "take_item q =
     (case heappop q of
        None \<Rightarrow> (Raised IndexError, q)
      | Some (item, q') \<Rightarrow> (Returned item, q'))"

definition PriorityQueue_get ::
  "EventItem list \<Rightarrow> bool \<Rightarrow> real option \<Rightarrow> EventItem outcome \<times> EventItem list" where
  "PriorityQueue_get q block timeout =
     (if \<not> block then (if q = [] then (Raised Empty, q) else take_item q)
      else (case timeout of
              None \<Rightarrow> (if q = [] then (Waits, q) else take_item q)
            | Some t \<Rightarrow>
                if t < 0 then (Raised (ValueError ''timeout must be a non-negative number''), q)
                else if q = [] then (Raised Empty, q)
                else take_item q))"

text \<open>\<^verbatim>\<open>EventQueue.get(block=True, timeout=None)\<close>: the event of the item the base class returns.\<close>

definition get :: "'c world \<Rightarrow> bool \<Rightarrow> real option \<Rightarrow> event outcome \<times> 'c world" where
  "get w block timeout =
     (case PriorityQueue_get (queue w) block timeout of
        (Returned event_item, q') \<Rightarrow> (Returned (event event_item), w\<lparr>queue := q'\<rparr>)
      | (Raised e, q') \<Rightarrow> (Raised e, w\<lparr>queue := q'\<rparr>)
      | (Waits, q') \<Rightarrow> (Waits, w\<lparr>queue := q'\<rparr>))"

text \<open>\<^verbatim>\<open>EventQueue.remove\<close>: the body of the loop, the loop, and the argument that is one event or a list.\<close>

definition remove_one :: "'c world \<Rightarrow> event \<Rightarrow> 'c world" where
  "remove_one w one_event =
     (let event_to_remove = \<lparr>time = ev_time one_event, event = one_event\<rparr>
      in case list_remove (queue w) event_to_remove of
           Some q' \<Rightarrow> w\<lparr>queue := q', log := log w @ [Debug_removed event_to_remove]\<rparr>
         | None \<Rightarrow> w\<lparr>log := log w @ [Warning_not_in_queue event_to_remove]\<rparr>)"

fun remove_all :: "'c world \<Rightarrow> event list \<Rightarrow> 'c world" where
  "remove_all w [] = w"
| "remove_all w (one_event # rest) = remove_all (remove_one w one_event) rest"

datatype event_s = Single event | Several "event list"

fun as_list :: "event_s \<Rightarrow> event list" where
  "as_list (Single e) = [e]"
| "as_list (Several es) = es"

definition remove :: "'c world \<Rightarrow> event_s \<Rightarrow> 'c world" where
  "remove w event_s = remove_all w (as_list event_s)"

text \<open>\<^verbatim>\<open>EventQueue.purge\<close>: the vessel events of the queue whose vessel is the given one, then \<^verbatim>\<open>remove\<close>.\<close>

definition vessels_events :: "'c world \<Rightarrow> vessel \<Rightarrow> event list" where
  "vessels_events w v = map event (filter (\<lambda>event_item. ev_vessel (event event_item) = Some v) (queue w))"

definition purge :: "'c world \<Rightarrow> vessel \<Rightarrow> 'c world" where
  "purge w v = remove w (Several (vessels_events w v))"

text \<open>\<^verbatim>\<open>EventQueue.__contains__\<close> and \<^verbatim>\<open>EventQueue.__getitem__\<close>: a scan from the front of the list.\<close>

fun contains_scan :: "EventItem list \<Rightarrow> EventItem \<Rightarrow> bool" where
  "contains_scan [] event_item = False"
| "contains_scan (current_event_item # rest) event_item =
     (if EventItem_eq event_item current_event_item then True else contains_scan rest event_item)"

definition contains :: "'c world \<Rightarrow> event \<Rightarrow> bool" where
  "contains w e = contains_scan (queue w) \<lparr>time = ev_time e, event = e\<rparr>"

fun getitem_scan :: "EventItem list \<Rightarrow> EventItem \<Rightarrow> event option" where
  "getitem_scan [] event_item = None"
| "getitem_scan (current_event_item # rest) event_item =
     (if EventItem_eq event_item current_event_item then Some (event current_event_item)
      else getitem_scan rest event_item)"

definition getitem :: "'c world \<Rightarrow> event \<Rightarrow> event outcome" where
  "getitem w e =
     (case getitem_scan (queue w) \<lparr>time = ev_time e, event = e\<rparr> of
        None \<Rightarrow> Raised (ValueError ''event'')
      | Some found_event \<Rightarrow> Returned found_event)"

section \<open>Execution of events\<close>

text \<open>
  \<^verbatim>\<open>VesselEvent.event_action\<close>: the vessel is told of the occurrence, then its location is
  set to the location of the event.
\<close>

definition VesselEvent_event_action :: "'c engine \<Rightarrow> 'c world \<Rightarrow> event \<Rightarrow> 'c world" where
  "VesselEvent_event_action eng w self =
     (case (ev_vessel self, ev_location self) of
        (Some v, Some loc) \<Rightarrow>
          w\<lparr>vessels := (vessels w)(v := (event_occurrence eng self (vessels w v))\<lparr>location := loc\<rparr>)\<rparr>
      | _ \<Rightarrow> w)"

text \<open>
  The time-window test of \<^verbatim>\<open>ArrivalEvent.event_action\<close>: the messages handed to
  \<^verbatim>\<open>logger.error\<close>, at most one.
\<close>

definition time_window_errors :: "'c engine \<Rightarrow> vessel \<Rightarrow> trade \<Rightarrow> bool \<Rightarrow> time \<Rightarrow> log_entry list" where
  "time_window_errors eng v tr pickup t =
     (if pickup then
        (if tw0 tr \<noteq> None \<and> t < the (tw0 tr)
         then [Error_time_constraints (company_name eng v) LoadingBeforeEarliestStart t (the (tw0 tr))]
         else if tw1 tr \<noteq> None \<and> t > the (tw1 tr)
         then [Error_time_constraints (company_name eng v) LoadingAfterLatestFinish t (the (tw1 tr))]
         else [])
      else
        (if tw2 tr \<noteq> None \<and> t < the (tw2 tr)
         then [Error_time_constraints (company_name eng v) UnloadingBeforeEarliestStart t (the (tw2 tr))]
         else if tw3 tr \<noteq> None \<and> t > the (tw3 tr)
         then [Error_time_constraints (company_name eng v) UnloadingAfterLatestFinish t (the (tw3 tr))]
         else []))"

text \<open>\<^verbatim>\<open>ArrivalEvent.event_action\<close>; it returns \<^verbatim>\<open>None\<close>.\<close>

fun ArrivalEvent_event_action :: "'c engine \<Rightarrow> 'c world \<Rightarrow> event \<Rightarrow> unit outcome \<times> 'c world" where
  "ArrivalEvent_event_action eng w (ArrivalEvent t i s v tr p) =
     (let w' = VesselEvent_event_action eng w (ArrivalEvent t i s v tr p)
      in (Returned (), w'\<lparr>log := log w' @ time_window_errors eng v tr p t\<rparr>))"
| "ArrivalEvent_event_action eng w self = (Returned (), w)"

text \<open>Python's \<^verbatim>\<open>str\<close> of a natural number, for the \<^verbatim>\<open>len(...)\<close> inside the info texts.\<close>

function str_nat :: "nat \<Rightarrow> string" where
  "str_nat n =
     (if n < 10 then [''0123456789'' ! n]
      else str_nat (n div 10) @ [''0123456789'' ! (n mod 10)])"
  by pat_completeness auto
termination
  by (relation "measure id") auto

declare str_nat.simps [simp del]

text \<open>
  \<^verbatim>\<open>CargoAnnouncementEvent.event_action\<close>. The result pairs how the call ended with the event
  as it is afterwards (its \<^verbatim>\<open>info\<close> is rewritten) and the state.
\<close>

fun CargoAnnouncementEvent_event_action ::
  "'c engine \<Rightarrow> 'c world \<Rightarrow> event \<Rightarrow> unit outcome \<times> event \<times> 'c world" where
  "CargoAnnouncementEvent_event_action eng w (CargoAnnouncementEvent t i cargo_available_time) =
     (let all_trades = get_trades eng cargo_available_time;
          w1 = w\<lparr>informed := informed w @ [(all_trades, cargo_available_time, shipping_companies eng)]\<rparr>;
          self = CargoAnnouncementEvent t
                   (Some (''#Trades: '' @ str_nat (length all_trades) @ ''. For time ''
                          @ format_time eng cargo_available_time))
                   cargo_available_time
      in case put w1 (generate_event_cargo eng cargo_available_time) of
           (r, w2) \<Rightarrow> (r, self, w2))"
| "CargoAnnouncementEvent_event_action eng w self = (Returned (), self, w)"

text \<open>
  \<^verbatim>\<open>FirstCargoAnnouncementEvent.event_action\<close>: as above, with the event for time 0 put first;
  a \<^verbatim>\<open>put\<close> that raises ends the call.
\<close>

fun FirstCargoAnnouncementEvent_event_action ::
  "'c engine \<Rightarrow> 'c world \<Rightarrow> event \<Rightarrow> unit outcome \<times> event \<times> 'c world" where
  "FirstCargoAnnouncementEvent_event_action eng w
       (FirstCargoAnnouncementEvent t i cargo_available_time_second_cargo) =
     (let all_trades_later = get_trades eng cargo_available_time_second_cargo;
          w1 = w\<lparr>informed := informed w
                   @ [(all_trades_later, cargo_available_time_second_cargo, shipping_companies eng)]\<rparr>;
          self = FirstCargoAnnouncementEvent t
                   (Some (''#Trades: '' @ str_nat (length all_trades_later) @ ''. For time ''
                          @ format_time eng cargo_available_time_second_cargo))
                   cargo_available_time_second_cargo
      in case put w1 (generate_event_cargo eng (Fin 0)) of
           (Returned u, w2) \<Rightarrow>
             (case put w2 (generate_event_cargo eng cargo_available_time_second_cargo) of
                (r, w3) \<Rightarrow> (r, self, w3))
         | (r, w2) \<Rightarrow> (r, self, w2))"
| "FirstCargoAnnouncementEvent_event_action eng w self = (Returned (), self, w)"

section \<open>Sequences of insertions and extractions\<close>

text \<open>
  The states of the schedule that insertions and extractions produce from an empty queue
  (no \<^verbatim>\<open>remove\<close>, no \<^verbatim>\<open>purge\<close>).
\<close>

inductive reachable :: "'c world \<Rightarrow> bool" where
  reachable_empty: "queue w = [] \<Longrightarrow> reachable w"
| reachable_put: "reachable w \<Longrightarrow> reachable (snd (put w e))"
| reachable_get: "reachable w \<Longrightarrow> reachable (snd (get w block timeout))"

text \<open>
  Up to \<open>n\<close> successive calls of \<^verbatim>\<open>get()\<close> with the default arguments: the events in the
  order they are returned, ending when a call does not return.
\<close>

fun get_all :: "nat \<Rightarrow> 'c world \<Rightarrow> event list" where
  "get_all 0 w = []"
| "get_all (Suc n) w =
     (case get w True None of
        (Returned e, w') \<Rightarrow> e # get_all n w'
      | _ \<Rightarrow> [])"

text \<open>
  The invariant of \<^verbatim>\<open>heapq\<close>: no item is smaller than its parent, the parent of position
  \<open>i\<close> being position \<open>(i - 1) div 2\<close>. The second predicate is the invariant with a hole:
  the position \<open>p\<close> is being refilled, every other pair of parent and child is in order,
  and so are the parent of \<open>p\<close> and the children of \<open>p\<close>.
\<close>

definition heap_inv :: "EventItem list \<Rightarrow> bool" where
  "heap_inv h = (\<forall>i<length h. 0 < i \<longrightarrow> time (h ! ((i - 1) div 2)) \<le> time (h ! i))"

definition hole_inv :: "EventItem list \<Rightarrow> nat \<Rightarrow> bool" where
  "hole_inv h p =
     (\<forall>i<length h. 0 < i \<longrightarrow>
        (i \<noteq> p \<and> (i - 1) div 2 \<noteq> p \<longrightarrow> time (h ! ((i - 1) div 2)) \<le> time (h ! i))
      \<and> ((i - 1) div 2 = p \<and> 0 < p \<longrightarrow> time (h ! ((p - 1) div 2)) \<le> time (h ! i)))"

text \<open>The list is a heap and every item carries the time of its event.\<close>

definition schedule_ok :: "'c world \<Rightarrow> bool" where
  "schedule_ok w = (heap_inv (queue w) \<and> (\<forall>it\<in>set (queue w). time it = ev_time (event it)))"

section \<open>An initial state\<close>

text \<open>
  The state after \<^verbatim>\<open>EventQueue.__init__\<close>: an empty queue, nothing announced or logged, the
  clock at 0. For the examples every vessel lies in port A and the cargo is not looked at.
\<close>

definition world_init :: "unit world" where
  "world_init =
     \<lparr>current_time = 0, queue = [],
      vessels = (\<lambda>v. \<lparr>location = At ''A'', cargo = ()\<rparr>),
      informed = [], log = []\<rparr>"

text \<open>
  Collaborators for the examples: a trade from A to B with the pickup window from 5 to 8,
  a shipping module that has three trades for time 10, a class factory whose
  \<^verbatim>\<open>generate_event_cargo\<close> builds a \<^verbatim>\<open>CargoEvent\<close>, and vessels that do nothing on
  \<^verbatim>\<open>event_occurrence\<close>.
\<close>

definition trade_AB :: trade where
  "trade_AB =
     \<lparr>origin_port = ''A'', destination_port = ''B'',
      time_window = (Some (Fin 5), Some (Fin 8), None, None),
      cargo_type = ''X'', amount = 100\<rparr>"

definition engine_example :: "unit engine" where
  "engine_example =
     \<lparr>get_trades = (\<lambda>t. if t = Fin 10
                          then [trade_AB, trade_AB\<lparr>amount := 50\<rparr>, trade_AB\<lparr>amount := 20\<rparr>]
                          else []),
      shipping_companies = [''Company''],
      generate_event_cargo = (\<lambda>t. CargoEvent t None),
      event_occurrence = (\<lambda>e s. s),
      company_name = (\<lambda>v. ''Company''),
      format_time = (\<lambda>t. ''t'')\<rparr>"

section \<open>Auxiliary facts\<close>

text \<open>Unfolding a \<^verbatim>\<open>put\<close> on a concrete state.\<close>

lemmas queue_eval = put_def world_init_def heappush_def siftdown_def siftdown_loop.simps
  DurationEvent_added_to_queue_def start_time_def EventItem_lt_def EventItem_eq_def Let_def

text \<open>Every \<^verbatim>\<open>__eq__\<close> compares the times.\<close>

lemma eq_method_time: "eq_method a b \<Longrightarrow> ev_time a = ev_time b"
  by (cases a)
     (simp_all add: Event_eq_def VesselEvent_eq_def IdleEvent_eq_def VesselCargoEvent_eq_def
        ArrivalEvent_eq_def CargoTransferEvent_eq_def)

lemma event_eq_time: "event_eq a b \<Longrightarrow> ev_time a = ev_time b"
  using eq_method_time [of a b] eq_method_time [of b a]
  by (auto simp: event_eq_def split: if_splits)

text \<open>\<^verbatim>\<open>list.remove\<close> and the loop of \<^verbatim>\<open>remove\<close>.\<close>

lemma list_remove_None: "(list_remove q x = None) = (\<forall>y\<in>set q. time y \<noteq> time x)"
  by (induction q) (auto simp: EventItem_eq_def split: option.splits)

lemma list_remove_Some:
  "list_remove q x = Some q' \<Longrightarrow> subseq q' q \<and> length q = Suc (length q')"
proof (induction q arbitrary: q')
  case Nil
  then show ?case by simp
next
  case (Cons y ys)
  show ?case
  proof (cases "EventItem_eq y x")
    case True
    with Cons.prems show ?thesis by auto
  next
    case False
    with Cons.prems obtain ys' where ys': "list_remove ys x = Some ys'" and q': "q' = y # ys'"
      by (auto split: option.splits)
    from Cons.IH [OF ys'] q' show ?thesis by simp
  qed
qed

lemma remove_one_frame:
  "current_time (remove_one w e) = current_time w \<and> vessels (remove_one w e) = vessels w
   \<and> informed (remove_one w e) = informed w"
  by (simp add: remove_one_def Let_def split: option.splits)

lemma remove_one_queue:
  "subseq (queue (remove_one w e)) (queue w)
   \<and> length (queue w) \<le> Suc (length (queue (remove_one w e)))"
  by (auto simp: remove_one_def Let_def split: option.splits dest: list_remove_Some)

lemma remove_one_absent:
  "\<forall>y\<in>set (queue w). time y \<noteq> ev_time e \<Longrightarrow>
   remove_one w e = w\<lparr>log := log w @ [Warning_not_in_queue \<lparr>time = ev_time e, event = e\<rparr>]\<rparr>"
  using list_remove_None [of "queue w" "\<lparr>time = ev_time e, event = e\<rparr>"]
  by (simp add: remove_one_def Let_def)

lemma remove_one_present:
  assumes "\<exists>y\<in>set (queue w). time y = ev_time e"
  shows "length (queue w) = Suc (length (queue (remove_one w e)))
         \<and> log (remove_one w e) = log w @ [Debug_removed \<lparr>time = ev_time e, event = e\<rparr>]"
proof -
  let ?x = "\<lparr>time = ev_time e, event = e\<rparr>"
  from assms list_remove_None [of "queue w" ?x]
  obtain q' where q': "list_remove (queue w) ?x = Some q'" by auto
  from list_remove_Some [OF q'] q' show ?thesis
    by (simp add: remove_one_def Let_def)
qed

lemma remove_one_either:
  "length (queue w) = Suc (length (queue (remove_one w e)))
     \<and> log (remove_one w e) = log w @ [Debug_removed \<lparr>time = ev_time e, event = e\<rparr>]
   \<or> queue (remove_one w e) = queue w
     \<and> log (remove_one w e) = log w @ [Warning_not_in_queue \<lparr>time = ev_time e, event = e\<rparr>]"
proof (cases "\<exists>y\<in>set (queue w). time y = ev_time e")
  case True
  then show ?thesis by (simp add: remove_one_present)
next
  case False
  then have "\<forall>y\<in>set (queue w). time y \<noteq> ev_time e" by simp
  from remove_one_absent [OF this] show ?thesis by simp
qed

lemma remove_all_frame:
  "current_time (remove_all w es) = current_time w \<and> vessels (remove_all w es) = vessels w
   \<and> informed (remove_all w es) = informed w"
  by (induction es arbitrary: w) (simp_all add: remove_one_frame)

lemma remove_all_queue:
  "subseq (queue (remove_all w es)) (queue w)
   \<and> length (queue w) \<le> length (queue (remove_all w es)) + length es"
proof (induction es arbitrary: w)
  case Nil
  show ?case by simp
next
  case (Cons e es)
  have a: "subseq (queue (remove_all (remove_one w e) es)) (queue (remove_one w e))"
    and b: "length (queue (remove_one w e)) \<le> length (queue (remove_all (remove_one w e) es)) + length es"
    using Cons.IH [of "remove_one w e"] by simp_all
  from a remove_one_queue [of w e] have "subseq (queue (remove_all (remove_one w e) es)) (queue w)"
    using subseq_order.order_trans by blast
  moreover from b remove_one_queue [of w e]
  have "length (queue w) \<le> length (queue (remove_all (remove_one w e) es)) + length (e # es)"
    by simp
  ultimately show ?case by simp
qed

text \<open>The sift towards the root keeps the length, the items and restores the heap.\<close>

lemma parent_less: "0 < i \<Longrightarrow> (i - 1) div 2 < (i::nat)"
  by arith

lemma heap_inv_hole: "heap_inv h \<Longrightarrow> hole_inv h p"
  unfolding heap_inv_def hole_inv_def
proof (intro allI impI conjI)
  fix i assume h: "\<forall>i<length h. 0 < i \<longrightarrow> time (h ! ((i - 1) div 2)) \<le> time (h ! i)"
    and i: "i < length h" "0 < i"
  { assume "i \<noteq> p \<and> (i - 1) div 2 \<noteq> p"
    from h i show "time (h ! ((i - 1) div 2)) \<le> time (h ! i)" by blast }
  { assume a: "(i - 1) div 2 = p \<and> 0 < p"
    with i have "p < length h" by arith
    with h a have "time (h ! ((p - 1) div 2)) \<le> time (h ! p)" by blast
    moreover from h i a have "time (h ! p) \<le> time (h ! i)" by blast
    ultimately show "time (h ! ((p - 1) div 2)) \<le> time (h ! i)" by (rule order_trans) }
qed

lemma hole_inv_update: "p < length h \<Longrightarrow> hole_inv (h[p := x]) p = hole_inv h p"
  unfolding hole_inv_def
  by (intro iffI allI impI; elim allE impE; (assumption | simp add: nth_list_update)?;
      force simp: nth_list_update dest: parent_less)


lemma siftdown_loop_length: "length (siftdown_loop h x 0 p) = length h"
proof (induction h x "0::nat" p rule: siftdown_loop.induct)
  case (1 heap newitem pos)
  then show ?case
    by (subst siftdown_loop.simps) (simp add: Let_def)
qed

lemma siftdown_loop_mset:
  "p < length h \<Longrightarrow> mset (siftdown_loop h x 0 p) = mset (h[p := x])"
proof (induction p arbitrary: h rule: less_induct)
  case (less pos heap)
  show ?case
  proof (cases "0 < pos \<and> EventItem_lt x (heap ! ((pos - 1) div 2))")
    case True
    let ?pp = "(pos - 1) div 2"
    from True have pp: "?pp < pos" by arith
    with less.prems have ppl: "?pp < length (heap[pos := heap ! ?pp])" by simp
    have "siftdown_loop heap x 0 pos
            = siftdown_loop (heap[pos := heap ! ?pp]) x 0 ?pp"
      using True by (subst siftdown_loop.simps) (simp add: Let_def)
    also have "mset \<dots> = mset (heap[pos := heap ! ?pp, ?pp := x])"
      using less.IH [OF pp ppl] by simp
    also have "\<dots> = mset (heap[pos := x])"
      using pp less.prems by (simp add: mset_update nth_list_update)
    finally show ?thesis .
  next
    case False
    then show ?thesis by (subst siftdown_loop.simps) (auto simp: Let_def)
  qed
qed

lemma siftdown_loop_heap:
  assumes "hole_inv h p" and "p < length h"
    and "\<forall>c<length h. 0 < c \<and> (c - 1) div 2 = p \<longrightarrow> time x \<le> time (h ! c)"
  shows "heap_inv (siftdown_loop h x 0 p)"
  using assms
proof (induction p arbitrary: h rule: less_induct)
  case (less pos heap)
  let ?pp = "(pos - 1) div 2"
  note hole = less.prems(1) [unfolded hole_inv_def, rule_format]
  note kids = less.prems(3) [rule_format]
  show ?case
  proof (cases "0 < pos \<and> EventItem_lt x (heap ! ?pp)")
    case True
    let ?h = "heap[pos := heap ! ?pp]"
    from True have pp: "?pp < pos" by arith
    from True have lt: "time x < time (heap ! ?pp)" by (simp add: EventItem_lt_def)
    from pp less.prems(2) have ppl: "?pp < length ?h" by simp
    have step: "siftdown_loop heap x 0 pos = siftdown_loop ?h x 0 ?pp"
      using True by (subst siftdown_loop.simps) (simp add: Let_def)
    have hole': "hole_inv ?h ?pp"
      unfolding hole_inv_def
    proof (intro allI impI conjI)
      fix i assume i: "i < length ?h" "0 < i"
      then have il: "i < length heap" by simp
      { assume a: "i \<noteq> ?pp \<and> (i - 1) div 2 \<noteq> ?pp"
        then have ip: "i \<noteq> pos" by auto
        show "time (?h ! ((i - 1) div 2)) \<le> time (?h ! i)"
        proof (cases "(i - 1) div 2 = pos")
          case True
          with hole [OF il i(2)] \<open>0 < pos \<and> _\<close> have "time (heap ! ?pp) \<le> time (heap ! i)" by simp
          with True ip less.prems(2) show ?thesis by (simp add: nth_list_update)
        next
          case False
          with hole [OF il i(2)] ip have "time (heap ! ((i - 1) div 2)) \<le> time (heap ! i)" by simp
          with False ip show ?thesis by (simp add: nth_list_update)
        qed }
      { assume a: "(i - 1) div 2 = ?pp \<and> 0 < ?pp"
        let ?g = "(?pp - 1) div 2"
        from a have g: "?g < ?pp" by arith
        with pp have gp: "?g \<noteq> pos" by arith
        from pp less.prems(2) have ppl': "?pp < length heap" by arith
        from hole [OF ppl'] a pp gp have gpp: "time (heap ! ?g) \<le> time (heap ! ?pp)" by simp
        show "time (?h ! ((?pp - 1) div 2)) \<le> time (?h ! i)"
        proof (cases "i = pos")
          case True
          with gpp gp less.prems(2) show ?thesis by (simp add: nth_list_update)
        next
          case False
          from a pp have "(i - 1) div 2 \<noteq> pos" by arith
          with hole [OF il i(2)] False have "time (heap ! ((i - 1) div 2)) \<le> time (heap ! i)" by simp
          with a have "time (heap ! ?pp) \<le> time (heap ! i)" by simp
          with gpp have "time (heap ! ?g) \<le> time (heap ! i)" by (rule order_trans)
          with False gp show ?thesis by (simp add: nth_list_update)
        qed }
    qed
    have kids': "\<forall>c<length ?h. 0 < c \<and> (c - 1) div 2 = ?pp \<longrightarrow> time x \<le> time (?h ! c)"
    proof (intro allI impI)
      fix c assume c: "c < length ?h" "0 < c \<and> (c - 1) div 2 = ?pp"
      then have cl: "c < length heap" by simp
      show "time x \<le> time (?h ! c)"
      proof (cases "c = pos")
        case True
        with lt less.prems(2) show ?thesis by (simp add: nth_list_update)
      next
        case False
        from c pp have "(c - 1) div 2 \<noteq> pos" by arith
        with hole [OF cl] c False have "time (heap ! ((c - 1) div 2)) \<le> time (heap ! c)" by simp
        with c lt have "time x \<le> time (heap ! c)" by simp
        with False show ?thesis by (simp add: nth_list_update)
      qed
    qed
    from less.IH [OF pp hole' ppl kids'] step show ?thesis by simp
  next
    case False
    then have res: "siftdown_loop heap x 0 pos = heap[pos := x]"
      by (subst siftdown_loop.simps) (auto simp: Let_def)
    have "heap_inv (heap[pos := x])"
      unfolding heap_inv_def
    proof (intro allI impI)
      fix i assume i: "i < length (heap[pos := x])" "0 < i"
      then have il: "i < length heap" by simp
      show "time (heap[pos := x] ! ((i - 1) div 2)) \<le> time (heap[pos := x] ! i)"
      proof (cases "i = pos")
        case True
        with i have pp: "?pp < pos" by arith
        from True i False have "\<not> time x < time (heap ! ?pp)" by (simp add: EventItem_lt_def)
        with True pp less.prems(2) show ?thesis by (simp add: nth_list_update)
      next
        case ip: False
        show ?thesis
        proof (cases "(i - 1) div 2 = pos")
          case True
          with kids [OF il] i have "time x \<le> time (heap ! i)" by simp
          with True ip less.prems(2) show ?thesis by (simp add: nth_list_update)
        next
          case False
          with hole [OF il i(2)] ip have "time (heap ! ((i - 1) div 2)) \<le> time (heap ! i)" by simp
          with False ip show ?thesis by (simp add: nth_list_update)
        qed
      qed
    qed
    with res show ?thesis by simp
  qed
qed


text \<open>The walk of the hole to a leaf, and \<^verbatim>\<open>_siftup\<close> as a whole.\<close>

lemma mset_update_swap:
  "p < length h \<Longrightarrow> c < length h \<Longrightarrow> p \<noteq> c \<Longrightarrow> mset (h[p := h ! c, c := x]) = mset (h[p := x])"
  by (simp add: mset_update nth_list_update)

lemma siftup_loop_props:
  assumes "hole_inv h p" and "p < length h" and "siftup_loop h p = (h', p')"
  shows "hole_inv h' p' \<and> p' < length h' \<and> length h' = length h \<and> length h' \<le> 2 * p' + 1
         \<and> (\<forall>x. mset (h'[p' := x]) = mset (h[p := x]))"
  using assms
proof (induction "length h - p" arbitrary: h p rule: less_induct)
  case less
  note hole = less.prems(1) [unfolded hole_inv_def, rule_format]
  show ?case
  proof (cases "2 * p + 1 < length h")
    case False
    with less.prems(3) have "h' = h" "p' = p"
      by (subst (asm) siftup_loop.simps, simp add: Let_def)+
    with less.prems False show ?thesis by simp
  next
    case True
    define c where "c = (if 2 * p + 2 < length h \<and> \<not> EventItem_lt (h ! (2 * p + 1)) (h ! (2 * p + 2))
                         then 2 * p + 2 else 2 * p + 1)"
    let ?h = "h[p := h ! c]"
    have cl: "c < length h" and pc: "p < c" and cp: "(c - 1) div 2 = p"
      using True by (auto simp: c_def)
    have sib: "time (h ! c) \<le> time (h ! i)" if "i < length h" "0 < i" "(i - 1) div 2 = p" "i \<noteq> c" for i
    proof (cases "c = 2 * p + 2")
      case True
      with that have i: "i = 2 * p + 1" by arith
      from True have "\<not> EventItem_lt (h ! (2 * p + 1)) (h ! (2 * p + 2))"
        by (auto simp: c_def split: if_splits)
      with i True show ?thesis by (simp add: EventItem_lt_def)
    next
      case False
      then have c1: "c = 2 * p + 1" by (auto simp: c_def split: if_splits)
      with that have i: "i = 2 * p + 2" by arith
      with that c1 have "EventItem_lt (h ! (2 * p + 1)) (h ! (2 * p + 2))"
        by (auto simp: c_def split: if_splits)
      with i c1 show ?thesis by (simp add: EventItem_lt_def)
    qed
    have step: "siftup_loop h p = siftup_loop ?h c"
      using True by (subst siftup_loop.simps) (simp add: Let_def c_def)
    have hole': "hole_inv ?h c"
      unfolding hole_inv_def
    proof (intro allI impI conjI)
      fix i assume i: "i < length ?h" "0 < i"
      then have il: "i < length h" by simp
      { assume a: "i \<noteq> c \<and> (i - 1) div 2 \<noteq> c"
        show "time (?h ! ((i - 1) div 2)) \<le> time (?h ! i)"
        proof (cases "i = p")
          case True
          with i have pp: "(p - 1) div 2 < p" by arith
          from hole [OF cl] pc cp True i have "time (h ! ((p - 1) div 2)) \<le> time (h ! c)" by simp
          with True pp less.prems(2) show ?thesis by (simp add: nth_list_update)
        next
          case ip: False
          show ?thesis
          proof (cases "(i - 1) div 2 = p")
            case True
            from sib [OF il i(2) True] a have "time (h ! c) \<le> time (h ! i)" by simp
            with True ip less.prems(2) show ?thesis by (simp add: nth_list_update)
          next
            case False
            with hole [OF il i(2)] ip have "time (h ! ((i - 1) div 2)) \<le> time (h ! i)" by simp
            with False ip show ?thesis by (simp add: nth_list_update)
          qed
        qed }
      { assume a: "(i - 1) div 2 = c \<and> 0 < c"
        with pc i have ip: "i \<noteq> p" "(i - 1) div 2 \<noteq> p" by arith+
        with hole [OF il i(2)] a have "time (h ! c) \<le> time (h ! i)" by simp
        with ip cp less.prems(2) show "time (?h ! ((c - 1) div 2)) \<le> time (?h ! i)"
          by (simp add: nth_list_update) }
    qed
    from cl have cl': "c < length ?h" by simp
    from less.prems(3) step have res: "siftup_loop ?h c = (h', p')" by simp
    from cl pc less.prems(2) have m: "length ?h - c < length h - p" by simp
    from less.hyps [OF m hole' cl' res]
    have r: "hole_inv h' p' \<and> p' < length h' \<and> length h' = length ?h \<and> length h' \<le> 2 * p' + 1
         \<and> (\<forall>x. mset (h'[p' := x]) = mset (?h[c := x]))" .
    moreover have "mset (?h[c := x]) = mset (h[p := x])" for x
      using mset_update_swap [OF less.prems(2) cl] pc by simp
    ultimately show ?thesis by simp
  qed
qed

lemma siftup_heap:
  assumes "hole_inv h 0" and "h \<noteq> []"
  shows "heap_inv (siftup h 0) \<and> mset (siftup h 0) = mset h"
proof -
  obtain h' p' where res: "siftup_loop h 0 = (h', p')" by (cases "siftup_loop h 0")
  from assms have l: "0 < length h" by simp
  from siftup_loop_props [OF assms(1) l res]
  have hole: "hole_inv h' p'" and p': "p' < length h'" and leaf: "length h' \<le> 2 * p' + 1"
    and ms: "\<And>x. mset (h'[p' := x]) = mset (h[0 := x])"
    by simp_all
  let ?x = "h ! 0"
  let ?h = "h'[p' := ?x]"
  have sift: "siftup h 0 = siftdown_loop ?h ?x 0 p'"
    using res p' by (simp add: siftup_def siftdown_def Let_def)
  from hole p' have hole': "hole_inv ?h p'" by (simp add: hole_inv_update)
  from p' have pl: "p' < length ?h" by simp
  have kids: "\<forall>c<length ?h. 0 < c \<and> (c - 1) div 2 = p' \<longrightarrow> time ?x \<le> time (?h ! c)"
    using leaf by (intro allI impI) (simp, arith)
  have "heap_inv (siftup h 0)"
    using siftdown_loop_heap [OF hole' pl kids] sift by simp
  moreover have "mset (siftup h 0) = mset h"
    using siftdown_loop_mset [OF pl, of ?x] sift ms [of ?x] by simp
  ultimately show ?thesis ..
qed

text \<open>The root of a heap is a least item; \<^verbatim>\<open>heappush\<close> and \<^verbatim>\<open>heappop\<close>.\<close>

lemma heap_inv_root: "heap_inv h \<Longrightarrow> i < length h \<Longrightarrow> time (h ! 0) \<le> time (h ! i)"
proof (induction i rule: less_induct)
  case (less i)
  show ?case
  proof (cases "i = 0")
    case True
    then show ?thesis by simp
  next
    case False
    then have p: "(i - 1) div 2 < i" by arith
    with less.prems have "(i - 1) div 2 < length h" by arith
    from less.IH [OF p less.prems(1) this]
    have "time (h ! 0) \<le> time (h ! ((i - 1) div 2))" .
    also from less.prems False have "\<dots> \<le> time (h ! i)" by (simp add: heap_inv_def)
    finally show ?thesis .
  qed
qed

lemma heap_inv_butlast: "heap_inv h \<Longrightarrow> heap_inv (butlast h)"
  unfolding heap_inv_def
  by (auto simp: nth_butlast)


lemma heappush_heap:
  assumes "heap_inv h"
  shows "heap_inv (heappush h x) \<and> mset (heappush h x) = add_mset x (mset h)"
proof -
  let ?h = "h @ [x]"
  have push: "heappush h x = siftdown_loop ?h x 0 (length h)"
    by (simp add: heappush_def siftdown_def)
  have pl: "length h < length ?h" by simp
  have hole: "hole_inv ?h (length h)"
    unfolding hole_inv_def
  proof (intro allI impI conjI)
    fix i assume i: "i < length ?h" "0 < i"
    { assume "i \<noteq> length h \<and> (i - 1) div 2 \<noteq> length h"
      with i have il: "i < length h" by simp
      with i have "(i - 1) div 2 < length h" by arith
      with assms il i show "time (?h ! ((i - 1) div 2)) \<le> time (?h ! i)"
        by (simp add: heap_inv_def nth_append) }
    { assume "(i - 1) div 2 = length h \<and> 0 < length h"
      with i have False by simp arith
      then show "time (?h ! ((length h - 1) div 2)) \<le> time (?h ! i)" .. }
  qed
  have kids: "\<forall>c<length ?h. 0 < c \<and> (c - 1) div 2 = length h \<longrightarrow> time x \<le> time (?h ! c)"
    by (intro allI impI) (simp, arith)
  from siftdown_loop_heap [OF hole pl kids] siftdown_loop_mset [OF pl, of x] push
  show ?thesis by simp
qed

lemma heappop_heap:
  assumes "heap_inv h" and "h \<noteq> []"
  shows "\<exists>h'. heappop h = Some (h ! 0, h') \<and> heap_inv h' \<and> mset h = add_mset (h ! 0) (mset h')
           \<and> (\<forall>y\<in>set h. time (h ! 0) \<le> time y)"
proof -
  have least: "\<forall>y\<in>set h. time (h ! 0) \<le> time y"
    using heap_inv_root [OF assms(1)] by (auto simp: in_set_conv_nth)
  show ?thesis
  proof (cases "butlast h = []")
    case True
    with assms(2) have h: "h = [last h]" by (metis append_butlast_last_id append_Nil)
    then have "h ! 0 = last h" by (metis nth_Cons_0)
    with True assms(2) h have "heappop h = Some (h ! 0, [])"
      by (simp add: heappop_def Let_def)
    moreover from h have "mset h = {#h ! 0#}" by (metis mset.simps(1) mset.simps(2) nth_Cons_0)
    ultimately show ?thesis using least by (simp add: heap_inv_def)
  next
    case False
    let ?b = "butlast h"
    let ?h0 = "?b[0 := last h]"
    from False have bl: "0 < length ?b" by (cases "butlast h") auto
    have b0: "?b ! 0 = h ! 0" by (rule nth_butlast) (rule bl)
    have pop: "heappop h = Some (h ! 0, siftup ?h0 0)"
      using False assms(2) b0 by (simp add: heappop_def Let_def)
    from heap_inv_butlast [OF assms(1)] have "hole_inv ?b 0" by (rule heap_inv_hole)
    with bl have hole: "hole_inv ?h0 0" by (simp add: hole_inv_update)
    from False have ne: "?h0 \<noteq> []" by simp
    from siftup_heap [OF hole ne]
    have inv: "heap_inv (siftup ?h0 0)" and ms: "mset (siftup ?h0 0) = mset ?h0" by simp_all
    from bl have "?b ! 0 \<in># mset ?b" by (metis nth_mem set_mset_mset)
    then have "add_mset (?b ! 0) (mset ?h0) = add_mset (last h) (mset ?b)"
      using bl by (simp add: mset_update)
    also have "\<dots> = mset (?b @ [last h])" by simp
    also have "\<dots> = mset h" using assms(2) by simp
    finally have "mset h = add_mset (h ! 0) (mset (siftup ?h0 0))" using ms b0 by simp
    with pop inv least show ?thesis by simp
  qed
qed

lemma heappush_mset: "mset (heappush h x) = add_mset x (mset h)"
  using siftdown_loop_mset [of "length h" "h @ [x]" x]
  by (simp add: heappush_def siftdown_def)

text \<open>\<^verbatim>\<open>put\<close> and \<^verbatim>\<open>get\<close> keep the invariant of the schedule.\<close>

lemma added_to_queue_keeps:
  "queue (snd (added_to_queue w e)) = queue w \<and> log (snd (added_to_queue w e)) = log w
   \<and> ev_time (fst (added_to_queue w e)) = ev_time e"
  by (cases e) (simp_all add: DurationEvent_added_to_queue_def Let_def)

lemma put_queue:
  "queue (snd (put w e)) =
     (if ev_time e = MathInf then queue w
      else heappush (queue w) \<lparr>time = ev_time e, event = fst (added_to_queue w e)\<rparr>)"
proof -
  obtain ev' w' where a: "added_to_queue w e = (ev', w')" by (cases "added_to_queue w e")
  with added_to_queue_keeps [of w e] show ?thesis by (simp add: put_def Let_def)
qed

lemma put_ok: "schedule_ok w \<Longrightarrow> schedule_ok (snd (put w e))"
proof -
  assume ok: "schedule_ok w"
  let ?it = "\<lparr>time = ev_time e, event = fst (added_to_queue w e)\<rparr>"
  from ok have "heap_inv (queue w)" by (simp add: schedule_ok_def)
  from heappush_heap [OF this, of ?it]
  have h: "heap_inv (heappush (queue w) ?it)"
    and m: "mset (heappush (queue w) ?it) = add_mset ?it (mset (queue w))" by simp_all
  from m have "set (heappush (queue w) ?it) = insert ?it (set (queue w))"
    by (metis set_mset_add_mset_insert set_mset_mset)
  with ok h added_to_queue_keeps [of w e] show ?thesis
    by (simp add: schedule_ok_def put_queue)
qed

lemma get_nonempty:
  assumes "schedule_ok w" and "queue w \<noteq> []"
  shows "\<exists>it w'. get w True None = (Returned (event it), w') \<and> it \<in> set (queue w)
            \<and> (\<forall>y\<in>set (queue w). time it \<le> time y) \<and> time it = ev_time (event it)
            \<and> mset (queue w) = add_mset it (mset (queue w')) \<and> schedule_ok w'"
proof -
  from assms(1) have hi: "heap_inv (queue w)" by (simp add: schedule_ok_def)
  from heappop_heap [OF hi assms(2)] obtain h' where
    pop: "heappop (queue w) = Some (queue w ! 0, h')" and h': "heap_inv h'"
    and ms: "mset (queue w) = add_mset (queue w ! 0) (mset h')"
    and least: "\<forall>y\<in>set (queue w). time (queue w ! 0) \<le> time y"
    by blast
  let ?it = "queue w ! 0"
  from assms(2) have mem: "?it \<in> set (queue w)" by simp
  from ms have "set (queue w) = insert ?it (set h')"
    by (metis set_mset_add_mset_insert set_mset_mset)
  with assms(1) h' have ok': "schedule_ok (w\<lparr>queue := h'\<rparr>)"
    by (simp add: schedule_ok_def)
  from pop assms(2) have "get w True None = (Returned (event ?it), w\<lparr>queue := h'\<rparr>)"
    by (simp add: get_def PriorityQueue_get_def take_item_def)
  with mem least ms ok' assms(1) show ?thesis
    by (intro exI [of _ ?it] exI [of _ "w\<lparr>queue := h'\<rparr>"]) (simp add: schedule_ok_def)
qed

lemma get_ok: "schedule_ok w \<Longrightarrow> schedule_ok (snd (get w block timeout))"
proof -
  assume ok: "schedule_ok w"
  show ?thesis
  proof (cases "queue w = []")
    case True
    with ok show ?thesis
      by (cases w) (simp add: get_def PriorityQueue_get_def schedule_ok_def split: option.splits)
  next
    case False
    from ok have hi: "heap_inv (queue w)" by (simp add: schedule_ok_def)
    from heappop_heap [OF hi False] obtain h' where
      pop: "heappop (queue w) = Some (queue w ! 0, h')" and h': "heap_inv h'"
      and ms: "mset (queue w) = add_mset (queue w ! 0) (mset h')"
      by blast
    from ms have "set (queue w) = insert (queue w ! 0) (set h')"
      by (metis set_mset_add_mset_insert set_mset_mset)
    with ok h' have ok': "schedule_ok (w\<lparr>queue := h'\<rparr>)"
      by (simp add: schedule_ok_def)
    have same: "w\<lparr>queue := queue w\<rparr> = w" by simp
    from pop False ok ok' same show ?thesis
      by (simp add: get_def PriorityQueue_get_def take_item_def split: option.splits)
  qed
qed

lemma reachable_ok: "reachable w \<Longrightarrow> schedule_ok w"
proof (induction rule: reachable.induct)
  case (reachable_empty w)
  then show ?case by (simp add: schedule_ok_def heap_inv_def)
next
  case (reachable_put w e)
  then show ?case by (simp add: put_ok)
next
  case (reachable_get w block timeout)
  then show ?case by (simp add: get_ok)
qed

lemma get_all_props:
  "schedule_ok w \<Longrightarrow>
     sorted (map ev_time (get_all n w))
     \<and> length (get_all n w) = min n (length (queue w))
     \<and> set (get_all n w) \<subseteq> event ` set (queue w)
     \<and> (length (queue w) \<le> n \<longrightarrow> mset (get_all n w) = image_mset event (mset (queue w)))"
proof (induction n arbitrary: w)
  case 0
  then show ?case by simp
next
  case (Suc n)
  show ?case
  proof (cases "queue w = []")
    case True
    then have "get w True None = (Waits, w)"
      by (cases w) (simp add: get_def PriorityQueue_get_def)
    with True show ?thesis by simp
  next
    case False
    from get_nonempty [OF Suc.prems False] obtain it w' where
      g: "get w True None = (Returned (event it), w')" and mem: "it \<in> set (queue w)"
      and least: "\<forall>y\<in>set (queue w). time it \<le> time y" and tm: "time it = ev_time (event it)"
      and ms: "mset (queue w) = add_mset it (mset (queue w'))" and ok': "schedule_ok w'"
      by blast
    from Suc.IH [OF ok'] have
      srt: "sorted (map ev_time (get_all n w'))"
      and len: "length (get_all n w') = min n (length (queue w'))"
      and sub: "set (get_all n w') \<subseteq> event ` set (queue w')"
      and all: "length (queue w') \<le> n \<longrightarrow> mset (get_all n w') = image_mset event (mset (queue w'))"
      by simp_all
    from g have ga: "get_all (Suc n) w = event it # get_all n w'" by simp
    from ms have st: "set (queue w) = insert it (set (queue w'))"
      by (metis set_mset_add_mset_insert set_mset_mset)
    from ms have ln: "length (queue w) = Suc (length (queue w'))"
      by (metis size_add_mset size_mset)
    have "ev_time (event it) \<le> ev_time e" if "e \<in> set (get_all n w')" for e
    proof -
      from that sub obtain y where y: "y \<in> set (queue w')" "e = event y" by auto
      with st have yw: "y \<in> set (queue w)" by simp
      with Suc.prems have "time y = ev_time (event y)" by (simp add: schedule_ok_def)
      with least yw tm y show ?thesis by auto
    qed
    with srt have "sorted (map ev_time (get_all (Suc n) w))" unfolding ga by simp
    moreover from len ln have "length (get_all (Suc n) w) = min (Suc n) (length (queue w))"
      unfolding ga by simp
    moreover from sub st have "set (get_all (Suc n) w) \<subseteq> event ` set (queue w)"
      unfolding ga by auto
    moreover from all ln ms
    have "length (queue w) \<le> Suc n \<longrightarrow> mset (get_all (Suc n) w) = image_mset event (mset (queue w))"
      unfolding ga by simp
    ultimately show ?thesis by simp
  qed
qed

lemma get_all_numeral:
  "get_all (numeral k) w =
     (case get w True None of
        (Returned e, w') \<Rightarrow> e # get_all (pred_numeral k) w'
      | _ \<Rightarrow> [])"
  by (simp add: numeral_eq_Suc)

lemmas heap_eval = queue_eval get_def PriorityQueue_get_def take_item_def heappop_def siftup_def
  siftup_loop.simps get_all_numeral

lemma put_finite:
  "ev_time e \<noteq> MathInf \<Longrightarrow>
   fst (put w e) = Returned ()
   \<and> mset (queue (snd (put w e)))
       = add_mset \<lparr>time = ev_time e, event = fst (added_to_queue w e)\<rparr> (mset (queue w))
   \<and> informed (snd (put w e)) = informed (snd (added_to_queue w e))"
proof -
  assume fin: "ev_time e \<noteq> MathInf"
  obtain ev' w' where a: "added_to_queue w e = (ev', w')" by (cases "added_to_queue w e")
  with fin added_to_queue_keeps [of w e] show ?thesis
    by (simp add: put_def Let_def heappush_mset)
qed

lemma added_to_queue_informed: "informed (snd (added_to_queue w e)) = informed w"
  by (cases e) (simp_all add: Let_def)

section \<open>Insertion at an infinite time\<close>

text \<open>
  C4. Putting an event whose time is \<^verbatim>\<open>math.inf\<close> raises the \<^verbatim>\<open>ValueError\<close> of \<^verbatim>\<open>put\<close>
  (the spec's InvalidScheduleError) and the whole state is the one before the call: the
  schedule is unchanged, and since \<^verbatim>\<open>added_to_queue\<close> has not run, no start time and no
  vessel location has been written.
\<close>

theorem put_infinite_time_raises:
  "ev_time e = MathInf \<Longrightarrow> put w e = (Raised (ValueError ''Event with infinite deadline.''), w)"
  by (simp add: put_def)

theorem put_infinite_time_raises_witness:
  "ev_time (TravelEvent MathInf None (-1) 1 ''A'' ''B'' False) = MathInf
   \<and> put world_init (TravelEvent MathInf None (-1) 1 ''A'' ''B'' False)
       = (Raised (ValueError ''Event with infinite deadline.''), world_init)"
  using put_infinite_time_raises [of "TravelEvent MathInf None (-1) 1 ''A'' ''B'' False" world_init]
  by simp

section \<open>Extraction from an empty queue\<close>

text \<open>
  C5, as stated, fails: with the default arguments (\<^verbatim>\<open>block=True\<close>, \<^verbatim>\<open>timeout=None\<close>)
  \<^verbatim>\<open>get\<close> on an empty queue does not raise, it waits.
\<close>

theorem get_empty_default_counterexample:
  "queue world_init = [] \<and> get world_init True None = (Waits, world_init)
   \<and> fst (get world_init True None) \<noteq> Raised Empty"
  by (simp add: world_init_def get_def PriorityQueue_get_def)

text \<open>
  C5, amended. On an empty queue \<^verbatim>\<open>get\<close> raises \<^verbatim>\<open>Empty\<close> when it is called without
  blocking or with a non-negative timeout, raises \<^verbatim>\<open>ValueError\<close> for a negative timeout, and
  waits when it is called blocking without a timeout; the state is unchanged in each case.
\<close>

theorem get_empty:
  "queue w = [] \<Longrightarrow>
   get w block timeout =
     (if \<not> block then (Raised Empty, w)
      else case timeout of
             None \<Rightarrow> (Waits, w)
           | Some t \<Rightarrow> if t < 0 then (Raised (ValueError ''timeout must be a non-negative number''), w)
                       else (Raised Empty, w))"
  by (cases w) (simp add: get_def PriorityQueue_get_def split: option.splits)

theorem get_empty_witness:
  "queue world_init = [] \<and> get world_init False None = (Raised Empty, world_init)
   \<and> get world_init True (Some 2) = (Raised Empty, world_init)"
  using get_empty [of world_init False None] get_empty [of world_init True "Some 2"]
  by (simp add: world_init_def)

section \<open>Start time and performed time of a duration event\<close>

text \<open>
  C6. For a duration event with finite time \<open>t\<close>, the hook run at insertion sets
  \<^verbatim>\<open>time_started\<close> to the minimum of \<open>t\<close> and the current time: to the current time when that
  is before \<open>t\<close>, to \<open>t\<close> when the current time is \<open>t\<close> or later. \<^verbatim>\<open>performed_time\<close> is 0 for
  an unstarted event (start time below 0, the constructor's -1) and \<open>t - time_started\<close> for
  a started one.
\<close>

theorem duration_event_start:
  "ev_time e = Fin t \<and> ev_time_started e = Some s \<longrightarrow>
     ev_time_started (fst (added_to_queue w e)) = Some (min t (current_time w))
     \<and> (current_time w < t \<longrightarrow> ev_time_started (fst (added_to_queue w e)) = Some (current_time w))
     \<and> (current_time w \<ge> t \<longrightarrow> ev_time_started (fst (added_to_queue w e)) = Some t)
     \<and> (s < 0 \<longrightarrow> has_started e = Some False \<and> performed_time e = Some (Fin 0))
     \<and> (s \<ge> 0 \<longrightarrow> has_started e = Some True \<and> performed_time e = Some (Fin (t - s)))"
  by (cases e) (auto simp: DurationEvent_added_to_queue_def start_time_def has_started_def
        performed_time_def Let_def min_def)

theorem duration_event_start_witness:
  "ev_time_started (fst (added_to_queue (world_init\<lparr>current_time := 3\<rparr>)
       (TravelEvent (Fin 7) None (-1) 1 ''A'' ''B'' False))) = Some 3
   \<and> ev_time_started (fst (added_to_queue (world_init\<lparr>current_time := 9\<rparr>)
       (TravelEvent (Fin 7) None (-1) 1 ''A'' ''B'' False))) = Some 7
   \<and> performed_time (TravelEvent (Fin 7) None (-1) 1 ''A'' ''B'' False) = Some (Fin 0)
   \<and> performed_time (TravelEvent (Fin 7) None 3 1 ''A'' ''B'' False) = Some (Fin 4)"
  using duration_event_start [of "TravelEvent (Fin 7) None (-1) 1 ''A'' ''B'' False" 7 "-1"
          "world_init\<lparr>current_time := 3\<rparr>"]
        duration_event_start [of "TravelEvent (Fin 7) None (-1) 1 ''A'' ''B'' False" 7 "-1"
          "world_init\<lparr>current_time := 9\<rparr>"]
        duration_event_start [of "TravelEvent (Fin 7) None 3 1 ''A'' ''B'' False" 7 3 world_init]
  by (simp add: world_init_def)

section \<open>Equality of events\<close>

text \<open>
  C7, as stated, fails: the info label takes part in the comparison. Two plain events, and
  two idle events, that differ in nothing but the label are not equal.
\<close>

theorem event_eq_info_counterexample:
  "\<not> event_eq (Event (Fin 1) (Some ''a'')) (Event (Fin 1) (Some ''b''))
   \<and> \<not> event_eq (IdleEvent (Fin 1) (Some ''a'') (-1) 1 ''P'') (IdleEvent (Fin 1) (Some ''b'') (-1) 1 ''P'')"
  by (simp add: event_eq_def proper_subclass_def Event_eq_def IdleEvent_eq_def VesselEvent_eq_def)

text \<open>
  C7, amended. Equality is structural, on values and never on references: two plain events
  are equal iff time and info agree, and two idle events are equal iff time, info, vessel and
  location agree, so that changing any one of the four breaks equality (the start time is
  not compared).
\<close>

theorem event_eq_structural:
  "event_eq (IdleEvent t i s v l) (IdleEvent t' i' s' v' l') = (t = t' \<and> i = i' \<and> v = v' \<and> l = l')
   \<and> event_eq (Event t i) (Event t' i') = (t = t' \<and> i = i')"
  by (auto simp add: event_eq_def proper_subclass_def Event_eq_def IdleEvent_eq_def VesselEvent_eq_def)

theorem event_eq_structural_witness:
  "event_eq (IdleEvent (Fin 1) None (-1) 1 ''P'') (IdleEvent (Fin 1) None 0 1 ''P'')
   \<and> \<not> event_eq (IdleEvent (Fin 1) None (-1) 1 ''P'') (IdleEvent (Fin 2) None (-1) 1 ''P'')
   \<and> \<not> event_eq (IdleEvent (Fin 1) None (-1) 1 ''P'') (IdleEvent (Fin 1) None (-1) 2 ''P'')
   \<and> \<not> event_eq (IdleEvent (Fin 1) None (-1) 1 ''P'') (IdleEvent (Fin 1) None (-1) 1 ''Q'')
   \<and> event_eq (Event (Fin 1) None) (Event (Fin 1) None)"
  using event_eq_structural [of "Fin 1" None "-1" 1 "''P''" "Fin 1" None 0 1 "''P''"]
        event_eq_structural [of "Fin 1" None "-1" 1 "''P''" "Fin 2" None "-1" 1 "''P''"]
        event_eq_structural [of "Fin 1" None "-1" 1 "''P''" "Fin 1" None "-1" 2 "''P''"]
        event_eq_structural [of "Fin 1" None "-1" 1 "''P''" "Fin 1" None "-1" 1 "''Q''"]
  by simp

section \<open>Removal\<close>

text \<open>
  C2, as stated, fails: after the same event was put twice, \<^verbatim>\<open>remove\<close> of that event
  leaves an entry that is structurally equal to it in the schedule.
\<close>

theorem remove_duplicate_counterexample:
  "queue (snd (put (snd (put world_init (Event (Fin 1) None))) (Event (Fin 1) None)))
     = [\<lparr>time = Fin 1, event = Event (Fin 1) None\<rparr>, \<lparr>time = Fin 1, event = Event (Fin 1) None\<rparr>]
   \<and> queue (remove (snd (put (snd (put world_init (Event (Fin 1) None))) (Event (Fin 1) None)))
              (Single (Event (Fin 1) None)))
     = [\<lparr>time = Fin 1, event = Event (Fin 1) None\<rparr>]
   \<and> event_eq (Event (Fin 1) None) (Event (Fin 1) None)"
  by (simp add: queue_eval remove_def remove_one_def event_eq_def proper_subclass_def Event_eq_def)

text \<open>
  C2, amended. \<^verbatim>\<open>remove\<close> has no raising path (the \<^verbatim>\<open>ValueError\<close> of \<^verbatim>\<open>list.remove\<close> is
  caught) and touches nothing but the schedule and the log. For one event it either deletes
  exactly one entry and logs the removal, or leaves the schedule as it is and logs a
  warning; the entries that stay keep their order. When the entries carry the times of
  their events, as \<^verbatim>\<open>put\<close> builds them, and the schedule holds an entry structurally equal
  to the event, exactly one entry is deleted. A list of events is handled one event after
  the other. What happens when no entry is structurally equal to the event is not stated.
\<close>

theorem remove_removes_exactly_one:
  "(length (queue w) = Suc (length (queue (remove w (Single e))))
      \<and> log (remove w (Single e)) = log w @ [Debug_removed \<lparr>time = ev_time e, event = e\<rparr>]
    \<or> queue (remove w (Single e)) = queue w
      \<and> log (remove w (Single e)) = log w @ [Warning_not_in_queue \<lparr>time = ev_time e, event = e\<rparr>])
   \<and> subseq (queue (remove w event_s)) (queue w)
   \<and> length (queue w) \<le> length (queue (remove w event_s)) + length (as_list event_s)
   \<and> current_time (remove w event_s) = current_time w
   \<and> vessels (remove w event_s) = vessels w
   \<and> informed (remove w event_s) = informed w
   \<and> remove w (Several []) = w
   \<and> remove w (Several (e # es)) = remove (remove w (Single e)) (Several es)
   \<and> ((\<forall>it\<in>set (queue w). time it = ev_time (event it)) \<longrightarrow>
        (\<forall>it\<in>set (queue (remove w event_s)). time it = ev_time (event it))
        \<and> ((\<exists>it\<in>set (queue w). event_eq (event it) e \<or> event_eq e (event it)) \<longrightarrow>
             length (queue w) = Suc (length (queue (remove w (Single e))))
             \<and> log (remove w (Single e)) = log w @ [Debug_removed \<lparr>time = ev_time e, event = e\<rparr>]))"
proof -
  have single: "remove w (Single e) = remove_one w e" by (simp add: remove_def)
  have either: "length (queue w) = Suc (length (queue (remove w (Single e))))
      \<and> log (remove w (Single e)) = log w @ [Debug_removed \<lparr>time = ev_time e, event = e\<rparr>]
    \<or> queue (remove w (Single e)) = queue w
      \<and> log (remove w (Single e)) = log w @ [Warning_not_in_queue \<lparr>time = ev_time e, event = e\<rparr>]"
    using remove_one_either [of w e] by (simp only: single)
  have sub: "subseq (queue (remove w event_s)) (queue w)"
    and len: "length (queue w) \<le> length (queue (remove w event_s)) + length (as_list event_s)"
    using remove_all_queue [of w "as_list event_s"] by (simp_all add: remove_def)
  have frame: "current_time (remove w event_s) = current_time w"
    "vessels (remove w event_s) = vessels w" "informed (remove w event_s) = informed w"
    using remove_all_frame [of w "as_list event_s"] by (simp_all add: remove_def)
  have lists: "remove w (Several []) = w"
    "remove w (Several (e # es)) = remove (remove w (Single e)) (Several es)"
    by (simp_all add: remove_def)
  have timed: "\<forall>it\<in>set (queue (remove w event_s)). time it = ev_time (event it)"
    if "\<forall>it\<in>set (queue w). time it = ev_time (event it)"
  proof
    fix it assume "it \<in> set (queue (remove w event_s))"
    with sub obtain y where "y \<in> set (queue w)" and "it = y" by (rule list_emb_set)
    with that show "time it = ev_time (event it)" by simp
  qed
  have one: "length (queue w) = Suc (length (queue (remove w (Single e))))
             \<and> log (remove w (Single e)) = log w @ [Debug_removed \<lparr>time = ev_time e, event = e\<rparr>]"
    if t: "\<forall>it\<in>set (queue w). time it = ev_time (event it)"
      and held: "\<exists>it\<in>set (queue w). event_eq (event it) e \<or> event_eq e (event it)"
  proof -
    from held obtain it where it: "it \<in> set (queue w)"
      and eq: "event_eq (event it) e \<or> event_eq e (event it)" by blast
    from eq have "ev_time (event it) = ev_time e" by (auto dest: event_eq_time)
    with t it have "\<exists>y\<in>set (queue w). time y = ev_time e" by auto
    from remove_one_present [OF this] show ?thesis by (simp only: single)
  qed
  from either sub len frame lists timed one show ?thesis by blast
qed

theorem remove_removes_exactly_one_witness:
  "queue (snd (put (snd (put world_init (Event (Fin 3) None))) (IdleEvent (Fin 5) None (-1) 1 ''P'')))
     = [\<lparr>time = Fin 3, event = Event (Fin 3) None\<rparr>,
        \<lparr>time = Fin 5, event = IdleEvent (Fin 5) None 0 1 ''P''\<rparr>]
   \<and> event_eq (IdleEvent (Fin 5) None 0 1 ''P'') (IdleEvent (Fin 5) None (-1) 1 ''P'')
   \<and> queue (remove (snd (put (snd (put world_init (Event (Fin 3) None)))
                               (IdleEvent (Fin 5) None (-1) 1 ''P'')))
              (Single (IdleEvent (Fin 5) None (-1) 1 ''P'')))
     = [\<lparr>time = Fin 3, event = Event (Fin 3) None\<rparr>]
   \<and> length (queue (snd (put (snd (put world_init (Event (Fin 3) None)))
                               (IdleEvent (Fin 5) None (-1) 1 ''P''))))
     = Suc (length (queue (remove (snd (put (snd (put world_init (Event (Fin 3) None)))
                               (IdleEvent (Fin 5) None (-1) 1 ''P'')))
              (Single (IdleEvent (Fin 5) None (-1) 1 ''P'')))))"
proof -
  let ?w = "snd (put (snd (put world_init (Event (Fin 3) None))) (IdleEvent (Fin 5) None (-1) 1 ''P''))"
  let ?e = "IdleEvent (Fin 5) None (-1) 1 ''P''"
  have q: "queue ?w = [\<lparr>time = Fin 3, event = Event (Fin 3) None\<rparr>,
        \<lparr>time = Fin 5, event = IdleEvent (Fin 5) None 0 1 ''P''\<rparr>]"
    by (simp add: queue_eval)
  have eq: "event_eq (IdleEvent (Fin 5) None 0 1 ''P'') ?e"
    by (simp add: event_eq_def proper_subclass_def Event_eq_def IdleEvent_eq_def VesselEvent_eq_def)
  have r: "queue (remove ?w (Single ?e)) = [\<lparr>time = Fin 3, event = Event (Fin 3) None\<rparr>]"
    by (simp add: queue_eval remove_def remove_one_def)
  have timed: "\<forall>it\<in>set (queue ?w). time it = ev_time (event it)"
    by (simp only: q) simp
  have held: "\<exists>it\<in>set (queue ?w). event_eq (event it) ?e \<or> event_eq ?e (event it)"
    using eq by (simp only: q) simp
  from remove_removes_exactly_one [of ?w ?e "Single ?e" "[]"] timed held
  have "length (queue ?w) = Suc (length (queue (remove ?w (Single ?e))))" by blast
  with q eq r show ?thesis by (simp only: simp_thms)
qed

section \<open>Purge\<close>

text \<open>
  C3. The code does not do what the claim and the docstring of \<^verbatim>\<open>purge\<close> say. Two idle
  events at time 5, the first of vessel 2 and the second of vessel 1, are in the schedule;
  \<^verbatim>\<open>purge\<close> of vessel 1 deletes the event of vessel 2 and keeps the event of vessel 1.
\<close>

theorem purge_removes_other_vessels_event:
  "queue (snd (put (snd (put world_init (IdleEvent (Fin 5) None (-1) 2 ''P'')))
                   (IdleEvent (Fin 5) None (-1) 1 ''P'')))
     = [\<lparr>time = Fin 5, event = IdleEvent (Fin 5) None 0 2 ''P''\<rparr>,
        \<lparr>time = Fin 5, event = IdleEvent (Fin 5) None 0 1 ''P''\<rparr>]
   \<and> queue (purge (snd (put (snd (put world_init (IdleEvent (Fin 5) None (-1) 2 ''P'')))
                           (IdleEvent (Fin 5) None (-1) 1 ''P''))) 1)
     = [\<lparr>time = Fin 5, event = IdleEvent (Fin 5) None 0 1 ''P''\<rparr>]"
  by (simp add: queue_eval purge_def vessels_events_def remove_def remove_one_def)

section \<open>Arrival outside the time window\<close>

text \<open>
  C8. Executing an \<^verbatim>\<open>ArrivalEvent\<close> returns normally. The vessel's location is then the
  location of the event, its cargo is what \<^verbatim>\<open>vessel.event_occurrence\<close> left (the event
  itself calls neither \<^verbatim>\<open>load_cargo\<close> nor \<^verbatim>\<open>unload_cargo\<close>), other vessels and the
  schedule are untouched, and when the time lies before the earliest or after the latest
  bound that applies, exactly one error message is logged.
\<close>

theorem arrival_event_action_violation:
  "ArrivalEvent_event_action eng w (ArrivalEvent t i s v tr p) = (r, w') \<longrightarrow>
     r = Returned ()
     \<and> location (vessels w' v) = At (if p then origin_port tr else destination_port tr)
     \<and> cargo (vessels w' v) = cargo (event_occurrence eng (ArrivalEvent t i s v tr p) (vessels w v))
     \<and> (\<forall>u. u \<noteq> v \<longrightarrow> vessels w' u = vessels w u)
     \<and> queue w' = queue w
     \<and> ((p \<and> ((\<exists>b. tw0 tr = Some b \<and> t < b) \<or> (\<exists>b. tw1 tr = Some b \<and> b < t))
          \<or> \<not> p \<and> ((\<exists>b. tw2 tr = Some b \<and> t < b) \<or> (\<exists>b. tw3 tr = Some b \<and> b < t)))
         \<longrightarrow> (\<exists>k b. log w' = log w @ [Error_time_constraints (company_name eng v) k t b]))"
proof -
  let ?e = "ArrivalEvent t i s v tr p"
  let ?loc = "At (if p then origin_port tr else destination_port tr)"
  have run: "ArrivalEvent_event_action eng w ?e =
      (Returned (),
       w\<lparr>vessels := (vessels w)(v := (event_occurrence eng ?e (vessels w v))\<lparr>location := ?loc\<rparr>),
         log := log w @ time_window_errors eng v tr p t\<rparr>)"
    by (simp add: VesselEvent_event_action_def Let_def)
  have err: "\<exists>k b. time_window_errors eng v tr p t = [Error_time_constraints (company_name eng v) k t b]"
    if "p \<and> ((\<exists>b. tw0 tr = Some b \<and> t < b) \<or> (\<exists>b. tw1 tr = Some b \<and> b < t))
          \<or> \<not> p \<and> ((\<exists>b. tw2 tr = Some b \<and> t < b) \<or> (\<exists>b. tw3 tr = Some b \<and> b < t))"
    using that unfolding time_window_errors_def by (cases p) auto
  show ?thesis
  proof (intro impI)
    assume "ArrivalEvent_event_action eng w ?e = (r, w')"
    with run have r: "r = Returned ()"
      and w': "w' = w\<lparr>vessels := (vessels w)(v := (event_occurrence eng ?e (vessels w v))\<lparr>location := ?loc\<rparr>),
                      log := log w @ time_window_errors eng v tr p t\<rparr>"
      by simp_all
    from w' have "location (vessels w' v) = ?loc"
      and "cargo (vessels w' v) = cargo (event_occurrence eng ?e (vessels w v))"
      and "\<forall>u. u \<noteq> v \<longrightarrow> vessels w' u = vessels w u"
      and "queue w' = queue w"
      and "log w' = log w @ time_window_errors eng v tr p t"
      by simp_all
    with r err show "r = Returned ()
     \<and> location (vessels w' v) = At (if p then origin_port tr else destination_port tr)
     \<and> cargo (vessels w' v) = cargo (event_occurrence eng (ArrivalEvent t i s v tr p) (vessels w v))
     \<and> (\<forall>u. u \<noteq> v \<longrightarrow> vessels w' u = vessels w u)
     \<and> queue w' = queue w
     \<and> ((p \<and> ((\<exists>b. tw0 tr = Some b \<and> t < b) \<or> (\<exists>b. tw1 tr = Some b \<and> b < t))
          \<or> \<not> p \<and> ((\<exists>b. tw2 tr = Some b \<and> t < b) \<or> (\<exists>b. tw3 tr = Some b \<and> b < t)))
         \<longrightarrow> (\<exists>k b. log w' = log w @ [Error_time_constraints (company_name eng v) k t b]))"
      by simp
  qed
qed

theorem arrival_event_action_violation_witness:
  "ArrivalEvent_event_action engine_example world_init (ArrivalEvent (Fin 9) None 0 1 trade_AB True)
     = (Returned (),
        world_init\<lparr>vessels := (vessels world_init)(1 := \<lparr>location = At ''A'', cargo = ()\<rparr>),
                   log := [Error_time_constraints ''Company'' LoadingAfterLatestFinish (Fin 9) (Fin 8)]\<rparr>)
   \<and> tw1 trade_AB = Some (Fin 8) \<and> Fin 8 < Fin 9
   \<and> location (vessels (snd (ArrivalEvent_event_action engine_example world_init
         (ArrivalEvent (Fin 9) None 0 1 trade_AB True))) 1) = At ''A''"
  using arrival_event_action_violation [of engine_example world_init "Fin 9" None 0 1 trade_AB True
     "Returned ()" "snd (ArrivalEvent_event_action engine_example world_init
         (ArrivalEvent (Fin 9) None 0 1 trade_AB True))"]
  by (simp add: engine_example_def world_init_def VesselEvent_event_action_def
      time_window_errors_def trade_AB_def)

section \<open>Equality of vessel cargo events\<close>

text \<open>
  C10. Two arrival events, or two cargo transfer events, with the same time, trade and
  pickup flag are equal whatever their vessels, labels and start times are. And the
  operations on the schedule match an entry of another vessel: with an arrival event of
  vessel 2 in the schedule, the query with the event of vessel 1 is contained, is looked up
  as the entry of vessel 2 and removes that entry; with both in the schedule, \<^verbatim>\<open>purge\<close> of
  vessel 1 deletes the entry of vessel 2.
\<close>

theorem vessel_cargo_event_eq_ignores_vessel:
  "event_eq (ArrivalEvent t i s v tr p) (ArrivalEvent t i' s' v' tr p)
   \<and> event_eq (CargoTransferEvent t i s v tr p) (CargoTransferEvent t i' s' v' tr p)
   \<and> contains (snd (put world_init (ArrivalEvent (Fin 5) (Some ''a'') (-1) 2 trade_AB True)))
        (ArrivalEvent (Fin 5) (Some ''b'') (-1) 1 trade_AB True)
   \<and> getitem (snd (put world_init (ArrivalEvent (Fin 5) (Some ''a'') (-1) 2 trade_AB True)))
        (ArrivalEvent (Fin 5) (Some ''b'') (-1) 1 trade_AB True)
       = Returned (ArrivalEvent (Fin 5) (Some ''a'') 0 2 trade_AB True)
   \<and> queue (remove (snd (put world_init (ArrivalEvent (Fin 5) (Some ''a'') (-1) 2 trade_AB True)))
        (Single (ArrivalEvent (Fin 5) (Some ''b'') (-1) 1 trade_AB True))) = []
   \<and> queue (purge (snd (put (snd (put world_init (ArrivalEvent (Fin 5) (Some ''a'') (-1) 2 trade_AB True)))
                            (ArrivalEvent (Fin 5) (Some ''b'') (-1) 1 trade_AB True))) 1)
       = [\<lparr>time = Fin 5, event = ArrivalEvent (Fin 5) (Some ''b'') 0 1 trade_AB True\<rparr>]"
  by (simp add: queue_eval purge_def vessels_events_def remove_def remove_one_def
      contains_def getitem_def event_eq_def proper_subclass_def ArrivalEvent_eq_def CargoTransferEvent_eq_def
      VesselCargoEvent_eq_def)

theorem vessel_cargo_event_eq_ignores_vessel_witness:
  "event_eq (ArrivalEvent (Fin 5) (Some ''a'') 0 2 trade_AB True)
            (ArrivalEvent (Fin 5) (Some ''b'') (-1) 1 trade_AB True)
   \<and> event_eq (CargoTransferEvent (Fin 5) (Some ''a'') 0 2 trade_AB True)
            (CargoTransferEvent (Fin 5) (Some ''b'') (-1) 1 trade_AB True)"
  using vessel_cargo_event_eq_ignores_vessel [of "Fin 5" "Some ''a''" 0 2 trade_AB True "Some ''b''" "-1" 1]
  by simp

section \<open>Order of extraction\<close>

text \<open>
  C1, as stated, fails in its last part: the heap does not keep items of equal time in the
  order of their insertion. Four events with time 1 are put in the order a, b, c, d and
  come out in the order a, c, b, d.
\<close>

theorem ties_counterexample:
  "get_all 4 (snd (put (snd (put (snd (put (snd (put world_init
       (Event (Fin 1) (Some ''a'')))) (Event (Fin 1) (Some ''b''))))
       (Event (Fin 1) (Some ''c'')))) (Event (Fin 1) (Some ''d''))))
   = [Event (Fin 1) (Some ''a''), Event (Fin 1) (Some ''c''),
      Event (Fin 1) (Some ''b''), Event (Fin 1) (Some ''d'')]"
  by (simp add: heap_eval)

text \<open>
  C1, amended. In every state that insertions and extractions produce from an empty queue,
  an extraction from a non-empty schedule returns the event of an item whose time is least
  among all items held, and removes exactly that item; successive extractions return the
  events in non-decreasing order of time, one for each call until the schedule is empty,
  and all of them when there are enough calls. Nothing is said about the order among
  equal times.
\<close>

theorem extraction_order:
  "reachable w \<Longrightarrow>
     (queue w \<noteq> [] \<longrightarrow>
        (\<exists>it w'. get w True None = (Returned (event it), w') \<and> it \<in> set (queue w)
            \<and> (\<forall>y\<in>set (queue w). time it \<le> time y) \<and> time it = ev_time (event it)
            \<and> mset (queue w) = add_mset it (mset (queue w')) \<and> reachable w'))
     \<and> sorted (map ev_time (get_all n w))
     \<and> length (get_all n w) = min n (length (queue w))
     \<and> (length (queue w) \<le> n \<longrightarrow> mset (get_all n w) = image_mset event (mset (queue w)))"
proof -
  assume r: "reachable w"
  then have ok: "schedule_ok w" by (rule reachable_ok)
  have "\<exists>it w'. get w True None = (Returned (event it), w') \<and> it \<in> set (queue w)
            \<and> (\<forall>y\<in>set (queue w). time it \<le> time y) \<and> time it = ev_time (event it)
            \<and> mset (queue w) = add_mset it (mset (queue w')) \<and> reachable w'"
    if ne: "queue w \<noteq> []"
  proof -
    from get_nonempty [OF ok ne] obtain it w' where
      g: "get w True None = (Returned (event it), w')" and rest: "it \<in> set (queue w)"
      "\<forall>y\<in>set (queue w). time it \<le> time y" "time it = ev_time (event it)"
      "mset (queue w) = add_mset it (mset (queue w'))"
      by blast
    from reachable_get [OF r, of True None] g have "reachable w'" by simp
    with g rest show ?thesis by blast
  qed
  with get_all_props [OF ok, of n] show ?thesis by blast
qed

theorem extraction_order_witness:
  "get_all 3 (snd (put (snd (put (snd (put world_init
       (Event (Fin 3) None))) (Event (Fin 1) None))) (Event (Fin 2) None)))
   = [Event (Fin 1) None, Event (Fin 2) None, Event (Fin 3) None]
   \<and> sorted (map ev_time (get_all 3 (snd (put (snd (put (snd (put world_init
       (Event (Fin 3) None))) (Event (Fin 1) None))) (Event (Fin 2) None)))))"
  using extraction_order [OF reachable_put [OF reachable_put [OF reachable_put [OF reachable_empty]]],
      of world_init "Event (Fin 3) None" "Event (Fin 1) None" "Event (Fin 2) None" 3]
  by (simp add: heap_eval)

section \<open>Cargo announcements\<close>

text \<open>
  C9, as stated, fails: what the announcement puts into the schedule is the event built by
  \<^verbatim>\<open>class_factory.generate_event_cargo\<close>, not a new \<^verbatim>\<open>CargoAnnouncementEvent\<close>. With a factory
  that builds a \<^verbatim>\<open>CargoEvent\<close>, executing the announcement for time 10 informs the market of
  the three trades and leaves one \<^verbatim>\<open>CargoEvent\<close> in the schedule.
\<close>

theorem announcement_successor_counterexample:
  "map event (queue (snd (snd (CargoAnnouncementEvent_event_action engine_example world_init
       (CargoAnnouncementEvent (Fin 10) None (Fin 10))))))
     = [CargoEvent (Fin 10) None]
   \<and> informed (snd (snd (CargoAnnouncementEvent_event_action engine_example world_init
       (CargoAnnouncementEvent (Fin 10) None (Fin 10)))))
     = [([trade_AB, trade_AB\<lparr>amount := 50\<rparr>, trade_AB\<lparr>amount := 20\<rparr>], Fin 10, [''Company''])]"
  by (simp add: queue_eval engine_example_def)

text \<open>
  C9, amended. When the events that \<^verbatim>\<open>generate_event_cargo\<close> builds have finite times,
  executing a \<^verbatim>\<open>CargoAnnouncementEvent\<close> returns normally, informs the market once, of
  exactly the trades that shipping reports for the cargo-available time, for that time and
  with the companies, and adds to the schedule the event that \<^verbatim>\<open>generate_event_cargo\<close> builds
  for that time. Executing a \<^verbatim>\<open>FirstCargoAnnouncementEvent\<close> does the same and adds, before
  it, the event that \<^verbatim>\<open>generate_event_cargo\<close> builds for time 0.
\<close>

theorem announcement_event_action:
  "(ev_time (generate_event_cargo eng c) \<noteq> MathInf \<longrightarrow>
    (\<exists>self w1 w'.
      CargoAnnouncementEvent_event_action eng w (CargoAnnouncementEvent t i c) = (Returned (), self, w')
      \<and> w1 = w\<lparr>informed := informed w @ [(get_trades eng c, c, shipping_companies eng)]\<rparr>
      \<and> informed w' = informed w @ [(get_trades eng c, c, shipping_companies eng)]
      \<and> mset (queue w')
          = add_mset \<lparr>time = ev_time (generate_event_cargo eng c),
                      event = fst (added_to_queue w1 (generate_event_cargo eng c))\<rparr>
              (mset (queue w))))
   \<and> (ev_time (generate_event_cargo eng c) \<noteq> MathInf
      \<and> ev_time (generate_event_cargo eng (Fin 0)) \<noteq> MathInf \<longrightarrow>
    (\<exists>self w1 w2 w'.
      FirstCargoAnnouncementEvent_event_action eng w (FirstCargoAnnouncementEvent t i c)
        = (Returned (), self, w')
      \<and> w1 = w\<lparr>informed := informed w @ [(get_trades eng c, c, shipping_companies eng)]\<rparr>
      \<and> w2 = snd (put w1 (generate_event_cargo eng (Fin 0)))
      \<and> informed w' = informed w @ [(get_trades eng c, c, shipping_companies eng)]
      \<and> mset (queue w')
          = add_mset \<lparr>time = ev_time (generate_event_cargo eng c),
                      event = fst (added_to_queue w2 (generate_event_cargo eng c))\<rparr>
              (add_mset \<lparr>time = ev_time (generate_event_cargo eng (Fin 0)),
                         event = fst (added_to_queue w1 (generate_event_cargo eng (Fin 0)))\<rparr>
                 (mset (queue w)))))"
proof (intro impI conjI)
  let ?w1 = "w\<lparr>informed := informed w @ [(get_trades eng c, c, shipping_companies eng)]\<rparr>"
  let ?gc = "generate_event_cargo eng c"
  let ?g0 = "generate_event_cargo eng (Fin 0)"
  { assume fc: "ev_time ?gc \<noteq> MathInf"
    from put_finite [OF fc, of ?w1] added_to_queue_informed [of ?w1 ?gc]
    obtain wc where pc: "put ?w1 ?gc = (Returned (), wc)"
      and mc: "mset (queue wc) = add_mset \<lparr>time = ev_time ?gc, event = fst (added_to_queue ?w1 ?gc)\<rparr>
                                    (mset (queue w))"
      and ic: "informed wc = informed w @ [(get_trades eng c, c, shipping_companies eng)]"
      by (cases "put ?w1 ?gc") auto
    then show "\<exists>self w1 w'.
        CargoAnnouncementEvent_event_action eng w (CargoAnnouncementEvent t i c) = (Returned (), self, w')
        \<and> w1 = w\<lparr>informed := informed w @ [(get_trades eng c, c, shipping_companies eng)]\<rparr>
        \<and> informed w' = informed w @ [(get_trades eng c, c, shipping_companies eng)]
        \<and> mset (queue w')
            = add_mset \<lparr>time = ev_time (generate_event_cargo eng c),
                        event = fst (added_to_queue w1 (generate_event_cargo eng c))\<rparr>
                (mset (queue w))"
      by (simp add: Let_def) }
  { assume "ev_time ?gc \<noteq> MathInf \<and> ev_time ?g0 \<noteq> MathInf"
    then have fc: "ev_time ?gc \<noteq> MathInf" and f0: "ev_time ?g0 \<noteq> MathInf" by simp_all
    from put_finite [OF f0, of ?w1] added_to_queue_informed [of ?w1 ?g0]
    obtain w0 where p0: "put ?w1 ?g0 = (Returned (), w0)"
      and m0: "mset (queue w0) = add_mset \<lparr>time = ev_time ?g0, event = fst (added_to_queue ?w1 ?g0)\<rparr>
                                    (mset (queue w))"
      and i0: "informed w0 = informed w @ [(get_trades eng c, c, shipping_companies eng)]"
      by (cases "put ?w1 ?g0") auto
    from put_finite [OF fc, of w0] added_to_queue_informed [of w0 ?gc]
    obtain w3 where p3: "put w0 ?gc = (Returned (), w3)"
      and m3: "mset (queue w3) = add_mset \<lparr>time = ev_time ?gc, event = fst (added_to_queue w0 ?gc)\<rparr>
                                    (mset (queue w0))"
      and i3: "informed w3 = informed w0"
      by (cases "put w0 ?gc") auto
    from p0 p3 m0 m3 i0 i3
    show "\<exists>self w1 w2 w'.
        FirstCargoAnnouncementEvent_event_action eng w (FirstCargoAnnouncementEvent t i c)
          = (Returned (), self, w')
        \<and> w1 = w\<lparr>informed := informed w @ [(get_trades eng c, c, shipping_companies eng)]\<rparr>
        \<and> w2 = snd (put w1 (generate_event_cargo eng (Fin 0)))
        \<and> informed w' = informed w @ [(get_trades eng c, c, shipping_companies eng)]
        \<and> mset (queue w')
            = add_mset \<lparr>time = ev_time (generate_event_cargo eng c),
                        event = fst (added_to_queue w2 (generate_event_cargo eng c))\<rparr>
                (add_mset \<lparr>time = ev_time (generate_event_cargo eng (Fin 0)),
                           event = fst (added_to_queue w1 (generate_event_cargo eng (Fin 0)))\<rparr>
                   (mset (queue w)))"
      by (simp add: Let_def) }
qed

theorem announcement_event_action_witness:
  "map event (queue (snd (snd (CargoAnnouncementEvent_event_action engine_example world_init
       (CargoAnnouncementEvent (Fin 10) None (Fin 10))))))
     = [CargoEvent (Fin 10) None]
   \<and> map event (queue (snd (snd (FirstCargoAnnouncementEvent_event_action engine_example world_init
       (FirstCargoAnnouncementEvent (Fin 0) None (Fin 10))))))
     = [CargoEvent (Fin 0) None, CargoEvent (Fin 10) None]"
proof -
  have run1: "map event (queue (snd (snd (CargoAnnouncementEvent_event_action engine_example world_init
       (CargoAnnouncementEvent (Fin 10) None (Fin 10))))))
     = [CargoEvent (Fin 10) None]"
    by (simp add: queue_eval engine_example_def)
  have run2: "map event (queue (snd (snd (FirstCargoAnnouncementEvent_event_action engine_example world_init
       (FirstCargoAnnouncementEvent (Fin 0) None (Fin 10))))))
     = [CargoEvent (Fin 0) None, CargoEvent (Fin 10) None]"
    apply (simp add: engine_example_def)
    apply (simp add: queue_eval)
    done
  have fin: "ev_time (generate_event_cargo engine_example (Fin 10)) \<noteq> MathInf
     \<and> ev_time (generate_event_cargo engine_example (Fin 0)) \<noteq> MathInf"
    by (simp add: engine_example_def)
  from announcement_event_action [of engine_example "Fin 10" world_init "Fin 0" None] fin run1 run2
  show ?thesis by blast
qed

end
